theory Spec2Isabelle
  imports Complex_Main "HOL-Library.Word" "HOL-Library.AList"
begin

section \<open>Go primitives used by the program\<close>

text \<open>
  Go's \<^verbatim>\<open>int64\<close> is a 64-bit word: \<open>+\<close>, \<open>-\<close> and \<open>*\<close> wrap around, and the
  comparisons of the source are the signed ones (\<open><s\<close>, \<open><=s\<close>, read through \<open>sint\<close>).
  Go's \<^verbatim>\<open>int\<close> is taken at its 64-bit width (the width on every 64-bit target).
  A \<^verbatim>\<open>time.Duration\<close> is an \<^verbatim>\<open>int64\<close> count of nanoseconds.
\<close>

type_synonym int64 = "64 word"
type_synonym go_int = "64 word"
type_synonym Duration = "64 word"

definition Millisecond :: Duration where
  "Millisecond = 1000000"

definition Second :: Duration where
  "Second = 1000000000"

definition Minute :: Duration where
  "Minute = 60000000000"

text \<open>
  A \<^verbatim>\<open>time.Time\<close> is an instant, modelled as its position in nanoseconds on the time
  line. \<^verbatim>\<open>t.Sub(u)\<close> is the duration \<open>t - u\<close>, saturated at the largest and smallest
  \<^verbatim>\<open>Duration\<close> as the Go library documents; \<^verbatim>\<open>t.Add(d)\<close> moves an instant by a
  signed duration; \<^verbatim>\<open>t.After(u)\<close> is the strict order of instants.
\<close>

type_synonym Time = int

definition time_Sub :: "Time \<Rightarrow> Time \<Rightarrow> Duration" where
  "time_Sub t u = word_of_int (max (- (2 ^ 63)) (min (2 ^ 63 - 1) (t - u)))"

definition time_Add :: "Time \<Rightarrow> Duration \<Rightarrow> Time" where
  "time_Add t d = t + sint d"

definition time_After :: "Time \<Rightarrow> Time \<Rightarrow> bool" where
  "time_After t u = (u < t)"

section \<open>Token usage (internal/usage/types.go)\<close>

record TokenUsage =
  InputTokens :: int64
  OutputTokens :: int64
  CacheCreationInputTokens :: int64
  CacheReadInputTokens :: int64

text \<open>\<^verbatim>\<open>Add\<close> updates its receiver in place; the model returns the updated value.\<close>

definition Add :: "TokenUsage \<Rightarrow> TokenUsage \<Rightarrow> TokenUsage" where
  "Add t other =
     t\<lparr>InputTokens := InputTokens t + InputTokens other,
       OutputTokens := OutputTokens t + OutputTokens other,
       CacheCreationInputTokens := CacheCreationInputTokens t + CacheCreationInputTokens other,
       CacheReadInputTokens := CacheReadInputTokens t + CacheReadInputTokens other\<rparr>"

definition TotalInput :: "TokenUsage \<Rightarrow> int64" where
  "TotalInput t = InputTokens t + CacheCreationInputTokens t + CacheReadInputTokens t"

text \<open>The zero value of the struct, which Go gives to a freshly declared \<^verbatim>\<open>TokenUsage\<close>.\<close>

definition zero_TokenUsage :: TokenUsage where
  "zero_TokenUsage =
     \<lparr>InputTokens = 0, OutputTokens = 0, CacheCreationInputTokens = 0, CacheReadInputTokens = 0\<rparr>"

section \<open>Transcript parsing (internal/usage/parser.go)\<close>

record SessionUsage =
  SessionID :: string
  ProjectPath :: string
  TotalUsage :: TokenUsage
  EstimatedCost :: real
  Model :: string
  LastUpdated :: Time





text \<open>
  What the operating system and \<^verbatim>\<open>bufio.Scanner\<close> give the function: \<open>None\<close> when
  \<^verbatim>\<open>os.Open\<close> fails; otherwise the lines the scanner delivered before it stopped,
  and whether it stopped at the end of the file or with an error (a read error, or a
  line beyond the 10 MiB buffer the source configures).
\<close>

datatype error = ErrOpen | ErrScanner



subsection \<open>The specification's reading of the parser\<close>










section \<open>Actions per minute (internal/game/apm.go)\<close>

record APMTracker =
  actions :: "Time list"
  current :: go_int
  windowSeconds :: go_int

definition NewAPMTracker :: "go_int \<Rightarrow> APMTracker" where
  "NewAPMTracker ws = \<lparr>actions = [], current = 0, windowSeconds = ws\<rparr>"

text \<open>
  The extrapolation \<^verbatim>\<open>int(float64(count) * float64(time.Minute) / float64(elapsed))\<close>,
  read in exact arithmetic: the quotient of \<open>count * Minute\<close> by \<open>elapsed\<close>, cut to an
  integer. Both operands are positive where the source evaluates it, so cutting is
  rounding down. The reading agrees with the \<^verbatim>\<open>float64\<close> computation wherever the
  product and the quotient are exactly representable, which covers one action over one
  second.
\<close>

definition extrapolate :: "nat \<Rightarrow> Duration \<Rightarrow> go_int" where
  "extrapolate count elapsed = word_of_int ((int count * sint Minute) div sint elapsed)"

definition recalculate :: "Time \<Rightarrow> APMTracker \<Rightarrow> APMTracker" where
  "recalculate now a =
     (let cutoff = time_Add now ((- windowSeconds a) * Second);
          newActions = filter (\<lambda>t. time_After t cutoff) (actions a);
          a1 = a\<lparr>actions := newActions\<rparr>;
          count = length newActions
      in if count = 0 then a1\<lparr>current := 0\<rparr>
         else
           let elapsed0 = time_Sub now (hd newActions);
               elapsed = (if elapsed0 <s Second then Second else elapsed0)
           in if elapsed <s Minute then a1\<lparr>current := extrapolate count elapsed\<rparr>
              else a1\<lparr>current := of_nat count\<rparr>)"

definition RecordAction :: "Time \<Rightarrow> APMTracker \<Rightarrow> APMTracker" where
  "RecordAction t a = recalculate t (a\<lparr>actions := actions a @ [t]\<rparr>)"

definition APM_Tick :: "Time \<Rightarrow> APMTracker \<Rightarrow> APMTracker" where
  "APM_Tick now a = recalculate now a"

definition Current :: "APMTracker \<Rightarrow> go_int" where
  "Current a = current a"

section \<open>Pomodoro timer (internal/game, PomodoroTimer)\<close>

datatype PomodoroState =
  PomodoroStopped | PomodoroPaused | PomodoroWork | PomodoroShortBreak | PomodoroLongBreak

text \<open>
  The two callbacks are opaque functions; the model keeps whether each is set
  (\<open>onComplete\<close>, \<open>onTick\<close>) and returns the calls made, in order.
\<close>

datatype callback = CompleteCalled | TickCalled PomodoroState Duration

record PomodoroTimer =
  state :: PomodoroState
  pausedState :: PomodoroState
  remaining :: Duration
  lastTick :: Time
  completed :: go_int
  workMinutes :: go_int
  shortBreakMinutes :: go_int
  longBreakMinutes :: go_int
  sessionsBeforeLongBreak :: go_int
  onComplete :: bool
  onTick :: bool

text \<open>The clock reading \<^verbatim>\<open>time.Now()\<close> is the argument \<open>now\<close> of each operation that takes it.\<close>

definition NewPomodoroTimer :: "Time \<Rightarrow> go_int \<Rightarrow> go_int \<Rightarrow> go_int \<Rightarrow> go_int \<Rightarrow> PomodoroTimer" where
  "NewPomodoroTimer now wm sbm lbm n =
     \<lparr>state = PomodoroStopped, pausedState = PomodoroStopped, remaining = 0, lastTick = now,
      completed = 0, workMinutes = wm, shortBreakMinutes = sbm, longBreakMinutes = lbm,
      sessionsBeforeLongBreak = n, onComplete = False, onTick = False\<rparr>"

definition Start :: "Time \<Rightarrow> PomodoroTimer \<Rightarrow> PomodoroTimer" where
  "Start now p =
     (if state p = PomodoroStopped
      then p\<lparr>state := PomodoroWork, remaining := workMinutes p * Minute, lastTick := now\<rparr>
      else p)"

definition Stop :: "PomodoroTimer \<Rightarrow> PomodoroTimer" where
  "Stop p = p\<lparr>state := PomodoroStopped, remaining := 0\<rparr>"

definition Pause :: "PomodoroTimer \<Rightarrow> PomodoroTimer" where
  "Pause p =
     (if state p \<noteq> PomodoroStopped \<and> state p \<noteq> PomodoroPaused
      then p\<lparr>pausedState := state p, state := PomodoroPaused\<rparr>
      else p)"

definition Resume :: "Time \<Rightarrow> PomodoroTimer \<Rightarrow> PomodoroTimer" where
  "Resume now p =
     (if state p = PomodoroPaused then p\<lparr>state := pausedState p, lastTick := now\<rparr> else p)"

definition Toggle :: "Time \<Rightarrow> PomodoroTimer \<Rightarrow> PomodoroTimer" where
  "Toggle now p =
     (case state p of
        PomodoroStopped \<Rightarrow> Start now p
      | PomodoroPaused \<Rightarrow> Resume now p
      | _ \<Rightarrow> Pause p)"

definition transition :: "PomodoroTimer \<Rightarrow> PomodoroTimer \<times> callback list" where
  "transition p =
     (case state p of
        PomodoroWork \<Rightarrow>
          (let p1 = p\<lparr>completed := completed p + 1\<rparr>;
               p2 = (if sessionsBeforeLongBreak p1 <=s completed p1
                     then p1\<lparr>state := PomodoroLongBreak,
                             remaining := longBreakMinutes p1 * Minute,
                             completed := 0\<rparr>
                     else p1\<lparr>state := PomodoroShortBreak,
                             remaining := shortBreakMinutes p1 * Minute\<rparr>)
           in (p2, if onComplete p then [CompleteCalled] else []))
      | PomodoroShortBreak \<Rightarrow>
          (p\<lparr>state := PomodoroWork, remaining := workMinutes p * Minute\<rparr>, [])
      | PomodoroLongBreak \<Rightarrow>
          (p\<lparr>state := PomodoroWork, remaining := workMinutes p * Minute\<rparr>, [])
      | _ \<Rightarrow> (p, []))"

definition Tick :: "Time \<Rightarrow> PomodoroTimer \<Rightarrow> PomodoroTimer \<times> callback list" where
  "Tick now p =
     (if state p = PomodoroStopped \<or> state p = PomodoroPaused then (p, [])
      else
        let elapsed = time_Sub now (lastTick p);
            p1 = p\<lparr>lastTick := now\<rparr>;
            (p2, calls) = (if elapsed <s remaining p1
                           then (p1\<lparr>remaining := remaining p1 - elapsed\<rparr>, [])
                           else transition (p1\<lparr>remaining := 0\<rparr>))
        in (p2, calls @ (if onTick p then [TickCalled (state p2) (remaining p2)] else [])))"

definition SetState :: "Time \<Rightarrow> string \<Rightarrow> Duration \<Rightarrow> PomodoroTimer \<Rightarrow> PomodoroTimer" where
  "SetState now stateStr rem p =
     p\<lparr>state := (if stateStr = ''paused'' then PomodoroPaused
                 else if stateStr = ''work'' then PomodoroWork
                 else if stateStr = ''short_break'' then PomodoroShortBreak
                 else if stateStr = ''long_break'' then PomodoroLongBreak
                 else PomodoroStopped),
       remaining := rem, lastTick := now\<rparr>"

definition OnComplete :: "bool \<Rightarrow> PomodoroTimer \<Rightarrow> PomodoroTimer" where
  "OnComplete set_fn p = p\<lparr>onComplete := set_fn\<rparr>"

definition OnTick :: "bool \<Rightarrow> PomodoroTimer \<Rightarrow> PomodoroTimer" where
  "OnTick set_fn p = p\<lparr>onTick := set_fn\<rparr>"

text \<open>Every operation that changes the timer, and a run of them from a timer.\<close>

datatype pomodoro_op =
  OpStart Time | OpStop | OpPause | OpResume Time | OpToggle Time | OpTick Time
  | OpSetState Time string Duration | OpOnComplete bool | OpOnTick bool

fun pomodoro_step :: "pomodoro_op \<Rightarrow> PomodoroTimer \<Rightarrow> PomodoroTimer" where
  "pomodoro_step (OpStart now) p = Start now p"
| "pomodoro_step OpStop p = Stop p"
| "pomodoro_step OpPause p = Pause p"
| "pomodoro_step (OpResume now) p = Resume now p"
| "pomodoro_step (OpToggle now) p = Toggle now p"
| "pomodoro_step (OpTick now) p = fst (Tick now p)"
| "pomodoro_step (OpSetState now s rem) p = SetState now s rem p"
| "pomodoro_step (OpOnComplete b) p = OnComplete b p"
| "pomodoro_step (OpOnTick b) p = OnTick b p"

text \<open>A run of ticks at the given instants, in order.\<close>

fun Ticks :: "Time list \<Rightarrow> PomodoroTimer \<Rightarrow> PomodoroTimer" where
  "Ticks [] p = p"
| "Ticks (t # ts) p = Ticks ts (fst (Tick t p))"

text \<open>
  A timer with the configuration of the repository's tests (25, 5 and 15 minutes, a long
  break after 4 work intervals), created at instant 0, and the same timer once started.
\<close>

definition test_timer :: PomodoroTimer where
  "test_timer = NewPomodoroTimer 0 25 5 15 4"

definition test_timer_started :: PomodoroTimer where
  "test_timer_started = Start 0 test_timer"

section \<open>Control groups (internal/game, ControlGroups)\<close>

text \<open>
  The two Go maps are partial functions. Reading a missing key of
  \<^verbatim>\<open>map[int]string\<close> gives the empty string; \<open>lookup_group\<close> is that read.
\<close>

record ControlGroups =
  groups :: "go_int \<rightharpoonup> string"
  lastTap :: "go_int \<rightharpoonup> Time"
  tapThreshold :: Duration

definition lookup_group :: "ControlGroups \<Rightarrow> go_int \<Rightarrow> string" where
  "lookup_group c groupNum = (case groups c groupNum of None \<Rightarrow> '''' | Some s \<Rightarrow> s)"

definition NewControlGroups :: "go_int \<Rightarrow> ControlGroups" where
  "NewControlGroups doubleTapThresholdMs =
     \<lparr>groups = Map.empty, lastTap = Map.empty,
      tapThreshold = doubleTapThresholdMs * Millisecond\<rparr>"

definition Assign :: "go_int \<Rightarrow> string \<Rightarrow> ControlGroups \<Rightarrow> ControlGroups" where
  "Assign groupNum session c = c\<lparr>groups := (groups c)(groupNum \<mapsto> session)\<rparr>"

definition Remove :: "go_int \<Rightarrow> string \<Rightarrow> ControlGroups \<Rightarrow> ControlGroups" where
  "Remove groupNum session c =
     (if lookup_group c groupNum = session
      then c\<lparr>groups := (groups c)(groupNum := None)\<rparr>
      else c)"

definition RemoveSession :: "string \<Rightarrow> ControlGroups \<Rightarrow> ControlGroups" where
  "RemoveSession session c =
     c\<lparr>groups := (\<lambda>g. if groups c g = Some session then None else groups c g)\<rparr>"

definition Get :: "go_int \<Rightarrow> ControlGroups \<Rightarrow> string" where
  "Get groupNum c = lookup_group c groupNum"

text \<open>
  \<^verbatim>\<open>Cycle\<close> reads the clock once; the reading is the argument \<open>now\<close>. The result is
  the pair \<^verbatim>\<open>(session, doubleTap)\<close> and the updated registry.
\<close>

definition Cycle :: "Time \<Rightarrow> go_int \<Rightarrow> ControlGroups \<Rightarrow> (string \<times> bool) \<times> ControlGroups" where
  "Cycle now groupNum c =
     (let doubleTap = (case lastTap c groupNum of
                         Some lt \<Rightarrow> time_Sub now lt <s tapThreshold c
                       | None \<Rightarrow> False);
          c1 = c\<lparr>lastTap := (lastTap c)(groupNum \<mapsto> now)\<rparr>
      in ((lookup_group c1 groupNum, doubleTap), c1))"

definition Load :: "(go_int \<rightharpoonup> string) \<Rightarrow> ControlGroups \<Rightarrow> ControlGroups" where
  "Load gs c = c\<lparr>groups := gs\<rparr>"

text \<open>The operations that change the registry, and a run of them in order.\<close>

datatype cg_op =
  OpAssign go_int string | OpRemove go_int string | OpRemoveSession string
  | OpCycle Time go_int | OpLoad "go_int \<rightharpoonup> string"

fun cg_step :: "cg_op \<Rightarrow> ControlGroups \<Rightarrow> ControlGroups" where
  "cg_step (OpAssign g s) c = Assign g s c"
| "cg_step (OpRemove g s) c = Remove g s c"
| "cg_step (OpRemoveSession s) c = RemoveSession s c"
| "cg_step (OpCycle now g) c = snd (Cycle now g c)"
| "cg_step (OpLoad gs) c = Load gs c"

fun cg_run :: "cg_op list \<Rightarrow> ControlGroups \<Rightarrow> ControlGroups" where
  "cg_run [] c = c"
| "cg_run (op # ops) c = cg_run ops (cg_step op c)"

fun cycles_slot :: "go_int \<Rightarrow> cg_op \<Rightarrow> bool" where
  "cycles_slot g (OpCycle now g') = (g' = g)"
| "cycles_slot g _ = False"

text \<open>
  The registry of the repository's tests: a threshold of 300 milliseconds and
  \<open>session-a\<close> assigned to slot 1.
\<close>

definition test_groups :: ControlGroups where
  "test_groups = Assign 1 ''session-a'' (NewControlGroups 300)"

section \<open>Regular expressions, as the detector uses Go's regexp\<close>

text \<open>
  Strings are byte strings, as in Go; a character outside ASCII is its UTF-8 bytes.
  The patterns of the detector are built from the following forms. \<open>NotNewline\<close> is
  \<^verbatim>\<open>.\<close>; the detector uses it only under a star and before an ASCII literal, where
  matching bytes and matching UTF-8 characters accept the same texts. \<open>EndOfLine\<close> is
  \<^verbatim>\<open>$\<close> under the flag \<^verbatim>\<open>(?m)\<close>: it holds at the end of the text and before a
  newline. \<open>OneOf []\<close> matches nothing.
\<close>

datatype regex =
  Eps
  | Byte char
  | OneOf "char list"
  | NotNewline
  | EndOfLine
  | Cat regex regex
  | Or regex regex
  | Star regex

definition newline :: char where
  "newline = CHR 0x0A"

text \<open>
  \<open>rems r s\<close> lists what can be left of \<open>s\<close> after \<open>r\<close> has matched a prefix of it.
  A star is iterated at most \<open>length s\<close> times, each time on a strictly shorter rest: an
  iteration that consumes nothing adds no new rest.
\<close>

fun star_iter :: "(string \<Rightarrow> string list) \<Rightarrow> nat \<Rightarrow> string \<Rightarrow> string list" where
  "star_iter f 0 s = [s]"
| "star_iter f (Suc n) s =
     s # concat (map (star_iter f n) (filter (\<lambda>r. length r < length s) (f s)))"

primrec rems :: "regex \<Rightarrow> string \<Rightarrow> string list" where
  "rems Eps = (\<lambda>s. [s])"
| "rems (Byte c) = (\<lambda>s. case s of [] \<Rightarrow> [] | x # xs \<Rightarrow> if x = c then [xs] else [])"
| "rems (OneOf cs) = (\<lambda>s. case s of [] \<Rightarrow> [] | x # xs \<Rightarrow> if x \<in> set cs then [xs] else [])"
| "rems NotNewline = (\<lambda>s. case s of [] \<Rightarrow> [] | x # xs \<Rightarrow> if x \<noteq> newline then [xs] else [])"
| "rems EndOfLine = (\<lambda>s. case s of [] \<Rightarrow> [[]] | x # xs \<Rightarrow> if x = newline then [s] else [])"
| "rems (Cat a b) = (\<lambda>s. concat (map (rems b) (rems a s)))"
| "rems (Or a b) = (\<lambda>s. rems a s @ rems b s)"
| "rems (Star a) = (\<lambda>s. star_iter (rems a) (length s) s)"

text \<open>
  \<^verbatim>\<open>MatchString\<close>: the pattern matches somewhere in the text, that is, at the start
  of some suffix of it.
\<close>

fun MatchString :: "regex \<Rightarrow> string \<Rightarrow> bool" where
  "MatchString r [] = (rems r [] \<noteq> [])"
| "MatchString r (c # cs) = (rems r (c # cs) \<noteq> [] \<or> MatchString r cs)"

subsection \<open>Writing the patterns\<close>

fun lit :: "string \<Rightarrow> regex" where
  "lit [] = Eps"
| "lit (c # cs) = Cat (Byte c) (lit cs)"

fun any_lit :: "string list \<Rightarrow> regex" where
  "any_lit [] = OneOf []"
| "any_lit [x] = lit x"
| "any_lit (x # y # ys) = Or (lit x) (any_lit (y # ys))"

text \<open>
  A literal under \<^verbatim>\<open>(?i)\<close> matches each of its characters in any case. Go folds
  case by \<^verbatim>\<open>unicode.SimpleFold\<close>: an ASCII letter matches its lower and upper case, and in
  addition \<open>k\<close> matches the Kelvin sign U+212A and \<open>s\<close> the long s U+017F.
\<close>

definition lowers :: string where
  "lowers = ''abcdefghijklmnopqrstuvwxyz''"

definition uppers :: string where
  "uppers = ''ABCDEFGHIJKLMNOPQRSTUVWXYZ''"

definition kelvin_sign :: string where
  "kelvin_sign = [CHR 0xE2, CHR 0x84, CHR 0xAA]"

definition long_s :: string where
  "long_s = [CHR 0xC5, CHR 0xBF]"

definition to_lower :: "char \<Rightarrow> char" where
  "to_lower c = (case map_of (zip uppers lowers) c of Some l \<Rightarrow> l | None \<Rightarrow> c)"

definition fold_orbit :: "char \<Rightarrow> string list" where
  "fold_orbit c =
     (let l = to_lower c in
      case map_of (zip lowers uppers) l of
        None \<Rightarrow> [[c]]
      | Some u \<Rightarrow>
          [[l], [u]] @
          (if l = CHR ''k'' then [kelvin_sign] else if l = CHR ''s'' then [long_s] else []))"

fun ilit :: "string \<Rightarrow> regex" where
  "ilit [] = Eps"
| "ilit (c # cs) = Cat (any_lit (fold_orbit c)) (ilit cs)"

text \<open>The classes \<^verbatim>\<open>\s\<close> and \<^verbatim>\<open>\d\<close>, which are ASCII-only in Go.\<close>

definition space_class :: regex where
  "space_class = OneOf [CHR 0x09, CHR 0x0A, CHR 0x0C, CHR 0x0D, CHR 0x20]"

definition digit_class :: regex where
  "digit_class = OneOf ''0123456789''"

text \<open>The characters outside ASCII that the patterns name, as UTF-8.\<close>

definition ellipsis :: string where
  "ellipsis = [CHR 0xE2, CHR 0x80, CHR 0xA6]"

definition prompt_glyph :: string where
  "prompt_glyph = [CHR 0xE2, CHR 0x9D, CHR 0xAF]"

definition return_glyph :: string where
  "return_glyph = [CHR 0xE2, CHR 0x86, CHR 0xB5]"

definition play_glyph :: string where
  "play_glyph = [CHR 0xE2, CHR 0x8F, CHR 0xB5]"

definition logo_banner :: string where
  "logo_banner =
     [CHR 0xE2, CHR 0x96, CHR 0x90, CHR 0xE2, CHR 0x96, CHR 0x9B, CHR 0xE2, CHR 0x96, CHR 0x88,
      CHR 0xE2, CHR 0x96, CHR 0x88, CHR 0xE2, CHR 0x96, CHR 0x88, CHR 0xE2, CHR 0x96, CHR 0x9C,
      CHR 0xE2, CHR 0x96, CHR 0x8C]"

definition spinner_glyphs :: "string list" where
  "spinner_glyphs =
     [[CHR 0xE2, CHR 0xA0, CHR 0x8B], [CHR 0xE2, CHR 0xA0, CHR 0x99],
      [CHR 0xE2, CHR 0xA0, CHR 0xB9], [CHR 0xE2, CHR 0xA0, CHR 0xB8],
      [CHR 0xE2, CHR 0xA0, CHR 0xBC], [CHR 0xE2, CHR 0xA0, CHR 0xB4],
      [CHR 0xE2, CHR 0xA0, CHR 0xA6], [CHR 0xE2, CHR 0xA0, CHR 0xA7],
      [CHR 0xE2, CHR 0xA0, CHR 0x87], [CHR 0xE2, CHR 0xA0, CHR 0x8F]]"

section \<open>State detection (internal/claude/detector.go)\<close>

datatype claude_SessionState =
  StateUnknown | StateIdle | StateActive | StateThinking | StateUrgent

text \<open>
  The pattern lists of the detector. The four single patterns of the struct
  (\<^verbatim>\<open>tokenPattern\<close>, \<^verbatim>\<open>thinkingPattern\<close>, \<^verbatim>\<open>ansiPattern\<close>, \<^verbatim>\<open>modePattern\<close>) serve
  \<^verbatim>\<open>ParseInfo\<close>, \<^verbatim>\<open>DetectMode\<close> and \<^verbatim>\<open>stripANSI\<close>; the last is modelled directly below.
\<close>

record Detector =
  urgentPatterns :: "regex list"
  thinkingPatterns :: "regex list"
  idlePatterns :: "regex list"
  promptActivePatterns :: "regex list"
  claudePatterns :: "regex list"

definition NewDetector :: Detector where
  "NewDetector =
     \<lparr>urgentPatterns =
        [ilit ''[Y/n]'',
         ilit ''[y/N]'',
         ilit ''Permission requested'',
         ilit ''Allow?'',
         ilit ''Proceed?'',
         ilit ''Are you sure'',
         ilit ''Continue?'',
         ilit ''(yes/no)'',
         ilit ''Press any key'',
         ilit ''Hit enter'',
         ilit ''chat about this'',
         ilit ''skip interview and plan'',
         ilit ''Ready to submit your answers''],
      thinkingPatterns =
        [ilit ''thinking...'',
         Cat (ilit ''thinking'') (lit ellipsis),
         ilit ''reasoning'',
         any_lit spinner_glyphs,
         lit ''Working...'',
         lit ''Processing...'',
         lit ''(esc to cancel)'',
         Cat (lit ''(ctrl'') (Cat (Star NotNewline) (lit '' to interrupt)'')),
         Cat (lit ''thought for '') (Cat digit_class (Star digit_class)),
         lit ''thinking''],
      idlePatterns =
        [Cat (lit prompt_glyph) (Cat (Star space_class) EndOfLine),
         Cat (lit ''>'') (Cat (Star space_class) EndOfLine),
         Cat (lit ''claude>'') (Cat (Star space_class) EndOfLine),
         lit (return_glyph @ '' send''),
         lit (play_glyph @ play_glyph),
         lit logo_banner],
      promptActivePatterns = [],
      claudePatterns =
        [lit ''Claude Code'',
         lit ''claude>'',
         lit prompt_glyph,
         lit ''ing... (ctrl'']\<rparr>"

text \<open>
  \<^verbatim>\<open>stripANSI\<close> deletes every match of \<^verbatim>\<open>\x1b\[[0-9;]*m\<close>, scanning from the left.
  At a given position the pattern has at most one match (the escape byte, a bracket, the
  longest run of digits and semicolons, then \<open>m\<close>), so the function follows the text
  once.
\<close>

definition escape :: char where
  "escape = CHR 0x1B"

definition is_sgr_param :: "char \<Rightarrow> bool" where
  "is_sgr_param c = (c \<in> set ''0123456789;'')"

function stripANSI :: "string \<Rightarrow> string" where
  "stripANSI [] = []"
| "stripANSI (c # cs) =
     (if c = escape then
        (case cs of
           [] \<Rightarrow> c # stripANSI cs
         | b # rest \<Rightarrow>
             if b = CHR ''['' then
               (case dropWhile is_sgr_param rest of
                  [] \<Rightarrow> c # stripANSI cs
                | m # rest' \<Rightarrow> if m = CHR ''m'' then stripANSI rest' else c # stripANSI cs)
             else c # stripANSI cs)
      else c # stripANSI cs)"
  by pat_completeness auto
termination
proof (relation "measure length")
  show "wf (measure length)" by simp
next
  fix c :: char and cs :: string and b :: char and rest :: string and m :: char and rest' :: string
  assume "cs = b # rest" and "dropWhile is_sgr_param rest = m # rest'"
  then have "length (m # rest') \<le> length rest"
    by (metis length_dropWhile_le)
  then show "(rest', c # cs) \<in> measure length"
    using \<open>cs = b # rest\<close> by simp
qed simp_all

text \<open>
  \<^verbatim>\<open>strings.Split(content, "\n")\<close> and \<^verbatim>\<open>strings.Join(lines, "\n")\<close>. A split
  has at least one piece, so the first branch of the case below is never taken.
\<close>

fun split_lines :: "string \<Rightarrow> string list" where
  "split_lines [] = [[]]"
| "split_lines (c # cs) =
     (if c = newline then [] # split_lines cs
      else (case split_lines cs of
              [] \<Rightarrow> [[c]]
            | l # ls \<Rightarrow> (c # l) # ls))"

fun join_lines :: "string list \<Rightarrow> string" where
  "join_lines [] = []"
| "join_lines [l] = l"
| "join_lines (l # l' # ls) = l @ newline # join_lines (l' # ls)"

definition getLastLines :: "string \<Rightarrow> nat \<Rightarrow> string" where
  "getLastLines content n =
     (let lines = split_lines content
      in if length lines \<le> n then content
         else join_lines (drop (length lines - n) lines))"

definition IsClaudeSession :: "Detector \<Rightarrow> string \<Rightarrow> bool" where
  "IsClaudeSession d content =
     list_ex (\<lambda>pattern. MatchString pattern (stripANSI content)) (claudePatterns d)"

text \<open>
  \<^verbatim>\<open>DetectState\<close>. Each of the three loops returns at the first pattern of its list
  that matches, so it is taken exactly when some pattern of the list matches. The
  arguments \<^verbatim>\<open>lastContent\<close> and \<^verbatim>\<open>lastCapture\<close> are not read.
\<close>

definition DetectState :: "Detector \<Rightarrow> string \<Rightarrow> string \<Rightarrow> Time \<Rightarrow> claude_SessionState" where
  "DetectState d content lastContent lastCapture =
     (let content' = stripANSI content;
          lines = getLastLines content' 20
      in if list_ex (\<lambda>pattern. MatchString pattern lines) (urgentPatterns d) then StateUrgent
         else if list_ex (\<lambda>pattern. MatchString pattern lines) (thinkingPatterns d)
           then StateThinking
         else if list_ex (\<lambda>pattern. MatchString pattern lines) (idlePatterns d) then StateIdle
         else StateActive)"

text \<open>
  Two captures in which a confirmation prompt and a bare prompt glyph are both on screen:
  the prompt glyph after the question, and before it (with a colour escape around it).
\<close>

definition urgent_then_idle :: string where
  "urgent_then_idle = ''Allow execution? [Y/n]'' @ [newline] @ prompt_glyph @ '' ''"

definition idle_then_urgent :: string where
  "idle_then_urgent =
     [escape] @ ''[1;32m'' @ prompt_glyph @ [escape] @ ''[0m'' @ [newline] @ ''Are you sure''"

section \<open>Session monitor (internal/daemon/monitor.go)\<close>

subsection \<open>Data\<close>

text \<open>\<^verbatim>\<open>tmux.Pane\<close> and \<^verbatim>\<open>tmux.Session\<close>.\<close>

record Pane =
  WindowIndex :: go_int
  PaneIndex :: go_int
  Active :: bool

record tmux_Session =
  ts_Name :: string
  ts_Created :: Time
  ts_Attached :: bool

text \<open>\<^verbatim>\<open>claude.SessionInfo\<close>, the result of \<^verbatim>\<open>ParseInfo\<close>.\<close>

record SessionInfo =
  info_State :: claude_SessionState
  info_Tokens :: go_int
  info_ThinkingTime :: Duration
  info_LastLine :: string

text \<open>\<^verbatim>\<open>daemon.SessionState\<close>; a nil pointer is \<open>None\<close>.\<close>

record SessionState =
  Name :: string
  State :: claude_SessionState
  LastContent :: string
  LastCapture :: Time
  Tokens :: go_int
  ThinkingTime :: Duration
  LastLine :: string
  Created :: Time
  Attached :: bool
  ClaudePane :: "Pane option"
  WorkingDir :: string
  Usage :: "SessionUsage option"
  ClaudeSessionID :: string

datatype EventType =
  EventSessionDiscovered | EventSessionClosed | EventStateChanged | EventTaskCompleted
  | EventUrgent | EventDebug

text \<open>An event; a field the source leaves out of a literal has Go's zero value.\<close>

record Event =
  ev_Type :: EventType
  ev_Session :: string
  ev_State :: claude_SessionState
  ev_Time :: Time
  ev_Message :: string

text \<open>
  The calls the monitor makes on the usage watcher and on the store, which change nothing
  in the monitor itself; the model records them in order.
\<close>

datatype collaborator_call =
  WatchSession string string string
  | UnwatchSession string
  | StoreCreateSession string
  | StoreSetClaudeSessionID string string

text \<open>
  The monitor. The map of sessions is an association list with one entry per name; its
  order stands for the order in which Go happens to range over the map. \<open>has_store\<close>
  is \<^verbatim>\<open>m.store != nil\<close>.
\<close>

record Monitor =
  detector :: Detector
  has_store :: bool
  sessions :: "(string \<times> SessionState) list"
  debug :: bool
  usagePollTick :: go_int
  calls :: "collaborator_call list"

definition NewMonitor :: "bool \<Rightarrow> bool \<Rightarrow> Monitor" where
  "NewMonitor st debug_env =
     \<lparr>detector = NewDetector, has_store = st, sessions = [], debug = debug_env,
      usagePollTick = 0, calls = []\<rparr>"

text \<open>
  What the outside world answers during one operation: tmux, the store, and the
  transcript files. An answer \<open>None\<close> is a call that returned an error; the calls whose
  error the source discards (\<^verbatim>\<open>GetSessionPath\<close>, \<^verbatim>\<open>GetClaudeSessionID\<close>,
  \<^verbatim>\<open>FindActiveSessionID\<close>) answer with the string they return, empty on error.
  \<open>transcript_usage\<close> is the part of \<^verbatim>\<open>usage.GetSessionByID\<close> that reads the file
  system: the parsed and priced transcript of the given identifier, \<open>None\<close> when the
  project directory or the file is missing or unreadable. \<open>detector_ParseInfo\<close> is
  \<^verbatim>\<open>ParseInfo\<close> of the detector, whose number parsing uses floating point; the
  monitor only copies three of its fields.
\<close>

record Env =
  tmux_IsRunning :: bool
  tmux_ListSessions :: "tmux_Session list option"
  tmux_ListPanes :: "string \<Rightarrow> Pane list option"
  tmux_CapturePane :: "string \<Rightarrow> go_int \<Rightarrow> go_int \<Rightarrow> string option"
  tmux_CapturePaneDefault :: "string \<Rightarrow> string option"
  tmux_GetSessionPath :: "string \<Rightarrow> string"
  store_GetClaudeSessionID :: "string \<Rightarrow> string"
  usage_FindActiveSessionID :: "string \<Rightarrow> string"
  transcript_usage :: "string \<Rightarrow> string \<Rightarrow> SessionUsage option"
  detector_ParseInfo :: "string \<Rightarrow> SessionInfo"

text \<open>\<^verbatim>\<open>usage.GetSessionByID\<close>: no identifier, no usage.\<close>

definition GetSessionByID :: "Env \<Rightarrow> string \<Rightarrow> string \<Rightarrow> SessionUsage option" where
  "GetSessionByID env workingDir sessionID =
     (if sessionID = '''' then None else transcript_usage env workingDir sessionID)"

subsection \<open>The event channel\<close>

text \<open>
  \<^verbatim>\<open>eventCh\<close> is a channel with a buffer of 100 events. A send \<^verbatim>\<open>m.eventCh <- e\<close>
  on a channel whose buffer holds \<open>buf\<close> completes, putting \<open>e\<close> at the end of the buffer,
  when there is room; otherwise the sender blocks until a receive makes room. Every send
  in the monitor is of this form; none is inside a \<^verbatim>\<open>select\<close> with a default case.
\<close>

definition eventCh_capacity :: nat where
  "eventCh_capacity = 100"

datatype send_result = Sent "Event list" | Blocked

definition chan_send :: "Event list \<Rightarrow> Event \<Rightarrow> send_result" where
  "chan_send buf e = (if length buf < eventCh_capacity then Sent (buf @ [e]) else Blocked)"

definition chan_receive :: "Event list \<Rightarrow> (Event \<times> Event list) option" where
  "chan_receive buf = (case buf of [] \<Rightarrow> None | e # rest \<Rightarrow> Some (e, rest))"

text \<open>A run of sends with no receive in between: it stops at the first send that blocks.\<close>

fun send_events :: "Event list \<Rightarrow> Event list \<Rightarrow> send_result" where
  "send_events buf [] = Sent buf"
| "send_events buf (e # es) =
     (case chan_send buf e of Blocked \<Rightarrow> Blocked | Sent buf' \<Rightarrow> send_events buf' es)"

subsection \<open>Operations\<close>

text \<open>
  Each operation returns the events it sends on the channel, in program order, next to
  the new state of the monitor. \<^verbatim>\<open>debugLog\<close> sends one event when the debug flag is
  set and none otherwise; the text of the event is the format string, its arguments are
  not rendered.
\<close>

definition debugLog :: "Monitor \<Rightarrow> string \<Rightarrow> Time \<Rightarrow> Event list" where
  "debugLog m format now =
     (if \<not> debug m then []
      else [\<lparr>ev_Type = EventDebug, ev_Session = '''', ev_State = StateUnknown,
             ev_Time = now, ev_Message = format\<rparr>])"

fun first_claude_pane :: "Detector \<Rightarrow> Env \<Rightarrow> string \<Rightarrow> Pane list \<Rightarrow> Pane option \<times> string" where
  "first_claude_pane d env session [] = (None, '''')"
| "first_claude_pane d env session (p # ps) =
     (case tmux_CapturePane env session (WindowIndex p) (PaneIndex p) of
        None \<Rightarrow> first_claude_pane d env session ps
      | Some content \<Rightarrow>
          if IsClaudeSession d content then (Some p, content)
          else first_claude_pane d env session ps)"

definition findClaudePane ::
  "Env \<Rightarrow> Time \<Rightarrow> Monitor \<Rightarrow> string \<Rightarrow> (Pane option \<times> string) \<times> Event list" where
  "findClaudePane env now m session =
     (case tmux_ListPanes env session of
        None \<Rightarrow> ((None, ''''), debugLog m ''%s: ListPanes error: %v'' now)
      | Some panes \<Rightarrow> (first_claude_pane (detector m) env session panes, []))"

text \<open>
  The first half of the loop body of \<^verbatim>\<open>poll\<close>: find the pane and its content, or
  give up on the session for this cycle (\<^verbatim>\<open>continue\<close>).
\<close>

datatype located = Skip | Located "Pane option" string

definition locate :: "Env \<Rightarrow> Time \<Rightarrow> Monitor \<Rightarrow> tmux_Session \<Rightarrow> located \<times> Event list" where
  "locate env now m ts =
     (let knownPane = (case map_of (sessions m) (ts_Name ts) of
                         Some existing \<Rightarrow> ClaudePane existing
                       | None \<Rightarrow> None);
          ((claudePane, content), ev) =
            (case knownPane of
               Some kp \<Rightarrow>
                 (case tmux_CapturePane env (ts_Name ts) (WindowIndex kp) (PaneIndex kp) of
                    Some c \<Rightarrow>
                      if IsClaudeSession (detector m) c then ((Some kp, c), [])
                      else findClaudePane env now m (ts_Name ts)
                  | None \<Rightarrow> findClaudePane env now m (ts_Name ts))
             | None \<Rightarrow> findClaudePane env now m (ts_Name ts))
      in if claudePane = None then
           (case tmux_CapturePaneDefault env (ts_Name ts) of
              None \<Rightarrow> (Skip, ev @ debugLog m ''%s: capture error: %v'' now)
            | Some c \<Rightarrow>
                if \<not> IsClaudeSession (detector m) c then (Skip, ev)
                else (Located None c, ev))
         else (Located claudePane content, ev))"

text \<open>The zero \<^verbatim>\<open>time.Time{}\<close>, which \<^verbatim>\<open>DetectState\<close> receives and does not read.\<close>

definition zero_Time :: Time where
  "zero_Time = 0"

text \<open>
  The identifier locked at discovery: the stored one if the store has one, otherwise the
  most recently modified transcript of the working directory.
\<close>

definition locked_id :: "Env \<Rightarrow> Monitor \<Rightarrow> string \<Rightarrow> string" where
  "locked_id env m name =
     (let workingDir = tmux_GetSessionPath env name;
          stored = (if has_store m then store_GetClaudeSessionID env name else '''')
      in if stored = '''' \<and> workingDir \<noteq> '''' then usage_FindActiveSessionID env workingDir
         else stored)"

text \<open>The branch \<^verbatim>\<open>if !exists\<close>: first discovery of a session.\<close>

definition discover ::
  "Env \<Rightarrow> Time \<Rightarrow> tmux_Session \<Rightarrow> Pane option \<Rightarrow> string \<Rightarrow> Monitor \<Rightarrow> Monitor \<times> Event list" where
  "discover env now ts claudePane content m =
     (let state = DetectState (detector m) content '''' zero_Time;
          info = detector_ParseInfo env content;
          workingDir = tmux_GetSessionPath env (ts_Name ts);
          stored = (if has_store m then store_GetClaudeSessionID env (ts_Name ts) else '''');
          claudeSessionID = locked_id env m (ts_Name ts);
          store_calls =
            (if stored = '''' \<and> workingDir \<noteq> '''' \<and> has_store m \<and> claudeSessionID \<noteq> ''''
             then [StoreCreateSession (ts_Name ts),
                   StoreSetClaudeSessionID (ts_Name ts) claudeSessionID]
             else []);
          initialUsage =
            (if claudeSessionID \<noteq> '''' \<and> workingDir \<noteq> ''''
             then GetSessionByID env workingDir claudeSessionID else None);
          new_session =
            \<lparr>Name = ts_Name ts, State = state, LastContent = content, LastCapture = now,
             Tokens = info_Tokens info, ThinkingTime = info_ThinkingTime info,
             LastLine = info_LastLine info, Created = ts_Created ts,
             Attached = ts_Attached ts, ClaudePane = claudePane, WorkingDir = workingDir,
             Usage = initialUsage, ClaudeSessionID = claudeSessionID\<rparr>;
          watch_calls =
            (if workingDir \<noteq> '''' then [WatchSession (ts_Name ts) workingDir claudeSessionID]
             else [])
      in (m\<lparr>sessions := AList.update (ts_Name ts) new_session (sessions m),
            calls := calls m @ store_calls @ watch_calls\<rparr>,
          [\<lparr>ev_Type = EventSessionDiscovered, ev_Session = ts_Name ts, ev_State = state,
            ev_Time = now, ev_Message = ''''\<rparr>]))"

text \<open>The branch \<^verbatim>\<open>else\<close>: the session is already tracked.\<close>

definition update_existing ::
  "Detector \<Rightarrow> Env \<Rightarrow> Time \<Rightarrow> tmux_Session \<Rightarrow> Pane option \<Rightarrow> string \<Rightarrow> SessionState
     \<Rightarrow> SessionState \<times> Event list" where
  "update_existing d env now ts claudePane content existing =
     (let oldState = State existing;
          newState = DetectState d content (LastContent existing) (LastCapture existing);
          info = detector_ParseInfo env content;
          existing' = existing\<lparr>State := newState, LastContent := content, LastCapture := now,
                        Tokens := info_Tokens info, ThinkingTime := info_ThinkingTime info,
                        LastLine := info_LastLine info, Attached := ts_Attached ts,
                        ClaudePane := claudePane\<rparr>
      in (existing',
          if oldState \<noteq> newState then
            [\<lparr>ev_Type = EventStateChanged, ev_Session = ts_Name ts, ev_State = newState,
              ev_Time = now, ev_Message = ''''\<rparr>]
            @ (if oldState = StateThinking \<and> (newState = StateIdle \<or> newState = StateActive)
               then [\<lparr>ev_Type = EventTaskCompleted, ev_Session = ts_Name ts,
                      ev_State = newState, ev_Time = now, ev_Message = ''''\<rparr>]
               else [])
            @ (if newState = StateUrgent
               then [\<lparr>ev_Type = EventUrgent, ev_Session = ts_Name ts, ev_State = newState,
                      ev_Time = now, ev_Message = info_LastLine info\<rparr>]
               else [])
          else []))"

text \<open>One turn of the loop over the tmux sessions.\<close>

definition poll_session :: "Env \<Rightarrow> Time \<Rightarrow> tmux_Session \<Rightarrow> Monitor \<Rightarrow> Monitor \<times> Event list" where
  "poll_session env now ts m =
     (case locate env now m ts of
        (Skip, ev) \<Rightarrow> (m, ev)
      | (Located claudePane content, ev) \<Rightarrow>
          (let ev_dbg = debugLog m ''%s: Claude=true pane=%v'' now
           in case map_of (sessions m) (ts_Name ts) of
                None \<Rightarrow>
                  (let (m', ev') = discover env now ts claudePane content m
                   in (m', ev @ ev_dbg @ ev'))
              | Some existing \<Rightarrow>
                  (let (existing', ev') =
                         update_existing (detector m) env now ts claudePane content existing
                   in (m\<lparr>sessions := AList.update (ts_Name ts) existing' (sessions m)\<rparr>,
                       ev @ ev_dbg @ ev'))))"

fun poll_sessions :: "Env \<Rightarrow> Time \<Rightarrow> tmux_Session list \<Rightarrow> Monitor \<Rightarrow> Monitor \<times> Event list" where
  "poll_sessions env now [] m = (m, [])"
| "poll_sessions env now (ts # rest) m =
     (let (m1, ev1) = poll_session env now ts m;
          (m2, ev2) = poll_sessions env now rest m1
      in (m2, ev1 @ ev2))"

text \<open>The last loop of \<^verbatim>\<open>poll\<close>: retire the sessions tmux no longer lists.\<close>

definition close_unseen :: "string list \<Rightarrow> Time \<Rightarrow> Monitor \<Rightarrow> Monitor \<times> Event list" where
  "close_unseen seen now m =
     (let gone = filter (\<lambda>(name, s). \<not> List.member seen name) (sessions m)
      in (m\<lparr>sessions := filter (\<lambda>(name, s). List.member seen name) (sessions m),
            calls := calls m @ map (\<lambda>(name, s). UnwatchSession name) gone\<rparr>,
          map (\<lambda>(name, s). \<lparr>ev_Type = EventSessionClosed, ev_Session = name,
                             ev_State = StateUnknown, ev_Time = now, ev_Message = ''''\<rparr>)
            gone))"

definition poll :: "Env \<Rightarrow> Time \<Rightarrow> Monitor \<Rightarrow> Monitor \<times> Event list" where
  "poll env now m =
     (if \<not> tmux_IsRunning env then (m, debugLog m ''tmux not running'' now)
      else case tmux_ListSessions env of
        None \<Rightarrow> (m, debugLog m ''ListSessions error: %v'' now)
      | Some tmuxSessions \<Rightarrow>
          (let ev0 = debugLog m ''Poll: %d tmux sessions'' now;
               (m1, ev1) = poll_sessions env now tmuxSessions m;
               (m2, ev2) = close_unseen (map ts_Name tmuxSessions) now m1
           in (m2, ev0 @ ev1 @ ev2)))"

text \<open>
  \<^verbatim>\<open>updateUsage\<close>: first the working directory and locked identifier of every session
  with a working directory are copied out; then, for each, the usage of that identifier is
  read with \<^verbatim>\<open>usage.GetSessionByID\<close> and, if there is one, stored in the session if it
  is still tracked. The second component of the result lists the calls of
  \<^verbatim>\<open>GetSessionByID\<close> made, in order, each as the pair of its two arguments.
\<close>

definition usage_targets :: "Monitor \<Rightarrow> (string \<times> string \<times> string) list" where
  "usage_targets m =
     map (\<lambda>(name, sess). (name, WorkingDir sess, ClaudeSessionID sess))
       (filter (\<lambda>(name, sess). WorkingDir sess \<noteq> '''') (sessions m))"

definition store_usage :: "string \<Rightarrow> SessionUsage option \<Rightarrow> Monitor \<Rightarrow> Monitor" where
  "store_usage name sessionUsage m =
     (case sessionUsage of
        None \<Rightarrow> m
      | Some u \<Rightarrow>
          (case map_of (sessions m) name of
             None \<Rightarrow> m
           | Some sess \<Rightarrow>
               m\<lparr>sessions := AList.update name (sess\<lparr>Usage := Some u\<rparr>) (sessions m)\<rparr>))"

fun store_usages ::
  "Env \<Rightarrow> (string \<times> string \<times> string) list \<Rightarrow> Monitor \<Rightarrow> Monitor \<times> (string \<times> string) list" where
  "store_usages env [] m = (m, [])"
| "store_usages env ((name, workingDir, claudeSessionID) # rest) m =
     (let sessionUsage = GetSessionByID env workingDir claudeSessionID;
          (m', reads) = store_usages env rest (store_usage name sessionUsage m)
      in (m', (workingDir, claudeSessionID) # reads))"

definition updateUsage :: "Env \<Rightarrow> Monitor \<Rightarrow> Monitor \<times> (string \<times> string) list" where
  "updateUsage env m = store_usages env (usage_targets m) m"

text \<open>
  One tick of \<^verbatim>\<open>pollLoop\<close>: a poll, and every fifth tick a usage refresh. The world
  may have changed between the two, so each has its own answers.
\<close>

definition pollLoop_tick :: "Env \<Rightarrow> Env \<Rightarrow> Time \<Rightarrow> Monitor \<Rightarrow> Monitor \<times> Event list" where
  "pollLoop_tick env env' now m =
     (let (m1, ev) = poll env now m;
          m2 = m1\<lparr>usagePollTick := usagePollTick m1 + 1\<rparr>
      in if 5 <=s usagePollTick m2
         then (fst (updateUsage env' (m2\<lparr>usagePollTick := 0\<rparr>)), ev)
         else (m2, ev))"

text \<open>The operations that change the monitor, and a run of them in order.\<close>

datatype monitor_op = OpPollOnce Env Time | OpUpdateUsage Env | OpLoopTick Env Env Time

fun monitor_step :: "monitor_op \<Rightarrow> Monitor \<Rightarrow> Monitor" where
  "monitor_step (OpPollOnce env now) m = fst (poll env now m)"
| "monitor_step (OpUpdateUsage env) m = fst (updateUsage env m)"
| "monitor_step (OpLoopTick env env' now) m = fst (pollLoop_tick env env' now m)"

fun monitor_run :: "monitor_op list \<Rightarrow> Monitor \<Rightarrow> Monitor" where
  "monitor_run [] m = m"
| "monitor_run (op # ops) m = monitor_run ops (monitor_step op m)"

text \<open>The session \<open>name\<close> is tracked before, between and after the operations of a run.\<close>

fun tracked_throughout :: "string \<Rightarrow> monitor_op list \<Rightarrow> Monitor \<Rightarrow> bool" where
  "tracked_throughout name [] m = (map_of (sessions m) name \<noteq> None)"
| "tracked_throughout name (op # ops) m =
     (map_of (sessions m) name \<noteq> None \<and> tracked_throughout name ops (monitor_step op m))"

text \<open>
  A monitor with the debug flag set, a buffer holding 100 events (full), and a
  state-changed event to send.
\<close>

definition debug_monitor :: Monitor where
  "debug_monitor = NewMonitor False True"

definition sample_event :: Event where
  "sample_event =
     \<lparr>ev_Type = EventStateChanged, ev_Session = ''main'', ev_State = StateIdle,
      ev_Time = 0, ev_Message = ''''\<rparr>"

definition full_buffer :: "Event list" where
  "full_buffer = replicate 100 sample_event"

text \<open>The state-changed and task-completed events of a session, as \<^verbatim>\<open>poll\<close> builds them.\<close>

definition state_changed_event :: "string \<Rightarrow> claude_SessionState \<Rightarrow> Time \<Rightarrow> Event" where
  "state_changed_event name st now =
     \<lparr>ev_Type = EventStateChanged, ev_Session = name, ev_State = st, ev_Time = now,
      ev_Message = ''''\<rparr>"

definition task_completed_event :: "string \<Rightarrow> claude_SessionState \<Rightarrow> Time \<Rightarrow> Event" where
  "task_completed_event name st now =
     \<lparr>ev_Type = EventTaskCompleted, ev_Session = name, ev_State = st, ev_Time = now,
      ev_Message = ''''\<rparr>"

subsection \<open>A scenario\<close>

text \<open>
  One tmux session \<open>main\<close> with one pane, in the working directory \<open>/work\<close>, no store.
  The pane shows the given capture, and the newest transcript of the directory is the
  given identifier. The transcript files answer a read of an identifier with a usage
  record carrying that identifier.
\<close>

definition thinking_capture :: string where
  "thinking_capture = [CHR 0xE2, CHR 0x9C, CHR 0xBD] @ '' Thinking... (ctrl+c to cancel)''"

definition idle_capture :: string where
  "idle_capture = ''some output'' @ [newline] @ prompt_glyph @ '' ''"

definition main_session :: tmux_Session where
  "main_session = \<lparr>ts_Name = ''main'', ts_Created = 0, ts_Attached = True\<rparr>"

definition pane0 :: Pane where
  "pane0 = \<lparr>WindowIndex = 0, PaneIndex = 0, Active = True\<rparr>"

definition no_info :: SessionInfo where
  "no_info =
     \<lparr>info_State = StateUnknown, info_Tokens = 0, info_ThinkingTime = 0, info_LastLine = ''''\<rparr>"

definition usage_of_id :: "string \<Rightarrow> string \<Rightarrow> SessionUsage" where
  "usage_of_id workingDir sid =
     \<lparr>SessionID = sid, ProjectPath = workingDir, TotalUsage = zero_TokenUsage,
      EstimatedCost = 0, Model = '''', LastUpdated = 0\<rparr>"

definition world :: "string \<Rightarrow> string \<Rightarrow> Env" where
  "world capture newest =
     \<lparr>tmux_IsRunning = True,
      tmux_ListSessions = Some [main_session],
      tmux_ListPanes = (\<lambda>session. Some [pane0]),
      tmux_CapturePane = (\<lambda>session w p. Some capture),
      tmux_CapturePaneDefault = (\<lambda>session. Some capture),
      tmux_GetSessionPath = (\<lambda>session. ''/work''),
      store_GetClaudeSessionID = (\<lambda>session. ''''),
      usage_FindActiveSessionID = (\<lambda>workingDir. newest),
      transcript_usage = (\<lambda>workingDir sid. Some (usage_of_id workingDir sid)),
      detector_ParseInfo = (\<lambda>content. no_info)\<rparr>"

text \<open>The session as tracked after its discovery at instant 1 while it shows thinking.\<close>

definition tracked_thinking :: SessionState where
  "tracked_thinking =
     \<lparr>Name = ''main'', State = StateThinking, LastContent = thinking_capture, LastCapture = 1,
      Tokens = 0, ThinkingTime = 0, LastLine = '''', Created = 0, Attached = True,
      ClaudePane = Some pane0, WorkingDir = ''/work'',
      Usage = Some (usage_of_id ''/work'' ''abc''), ClaudeSessionID = ''abc''\<rparr>"

definition monitor_tracking :: Monitor where
  "monitor_tracking =
     \<lparr>detector = NewDetector, has_store = False, sessions = [(''main'', tracked_thinking)],
      debug = False, usagePollTick = 0, calls = [WatchSession ''main'' ''/work'' ''abc'']\<rparr>"

text \<open>The locked transcript identifier of a session, if the monitor tracks the session.\<close>

definition id_of :: "Monitor \<Rightarrow> string \<Rightarrow> string option" where
  "id_of m name = map_option ClaudeSessionID (map_of (sessions m) name)"

section \<open>Properties of token usage\<close>

text \<open>
  Claim C5. For every \<^verbatim>\<open>TokenUsage\<close> value \<open>a\<close>, \<^verbatim>\<open>TotalInput\<close> is the sum of the
  input, cache-creation and cache-read counters; \<^verbatim>\<open>Add\<close> is the componentwise sum of
  the four counters, and so it is commutative and associative. The sums are those of
  Go's \<^verbatim>\<open>int64\<close>.
\<close>

theorem TokenUsage_Add_TotalInput:
  "TotalInput a = InputTokens a + CacheCreationInputTokens a + CacheReadInputTokens a
   \<and> Add a b = \<lparr>InputTokens = InputTokens a + InputTokens b,
                OutputTokens = OutputTokens a + OutputTokens b,
                CacheCreationInputTokens = CacheCreationInputTokens a + CacheCreationInputTokens b,
                CacheReadInputTokens = CacheReadInputTokens a + CacheReadInputTokens b\<rparr>
   \<and> Add a b = Add b a
   \<and> Add (Add a b) c = Add a (Add b c)"
  by (cases a, cases b, cases c) (simp add: TotalInput_def Add_def add.commute add.assoc)

section \<open>Properties of the transcript parser\<close>















section \<open>Signed readings of durations\<close>

lemma sint_Second: "sint Second = 1000000000"
  by (simp add: Second_def)

lemma sint_Minute: "sint Minute = 60000000000"
  by (simp add: Minute_def)

lemma sint_int64_of_int:
  "- (2 ^ 63) \<le> k \<Longrightarrow> k < 2 ^ 63 \<Longrightarrow> sint (word_of_int k :: 64 word) = k"
  by (simp add: sint_sbintrunc' signed_take_bit_int_eq_self)

lemma sint_int64_bounds: "- (2 ^ 63) \<le> sint (w :: 64 word) \<and> sint w < 2 ^ 63"
  using sint_ge [of w] sint_lt [of w] by simp

lemma sint_time_Sub: "sint (time_Sub t u) = max (- (2 ^ 63)) (min (2 ^ 63 - 1) (t - u))"
  unfolding time_Sub_def by (rule sint_int64_of_int) auto

lemma time_Sub_self: "time_Sub t t = 0"
  by (simp add: time_Sub_def)

lemma time_Sub_within: "t1 \<le> t2 \<Longrightarrow> t2 - t1 < sint T \<Longrightarrow> time_Sub t2 t1 <s T"
  using sint_int64_bounds [of T] by (simp add: word_sless_alt sint_time_Sub)

lemma time_Sub_beyond: "sint T \<le> t2 - t1 \<Longrightarrow> \<not> time_Sub t2 t1 <s T"
  using sint_int64_bounds [of T]
  by (auto simp add: word_sless_alt sint_time_Sub min_def max_def)

section \<open>Properties of the action-rate tracker\<close>

lemma sint_neg_window:
  fixes ws :: "64 word"
  assumes "0 < sint ws" and "sint ws * 1000000000 < 2 ^ 63"
  shows "sint ((- ws) * Second) = - (sint ws * 1000000000)"
proof -
  have lt: "sint ws < 2 ^ 63" using sint_int64_bounds [of ws] by simp
  have n: "sint (- ws) = - sint ws"
    using assms(1) lt by (simp add: sint_word_minus signed_take_bit_int_eq_self)
  have "sint ((- ws) * Second) = signed_take_bit 63 (sint (- ws) * sint Second)"
    using sint_word_mult [of "- ws" Second] by (simp del: mult_minus_left)
  also have "\<dots> = signed_take_bit 63 (- (sint ws * 1000000000))"
    by (simp add: n sint_Second)
  also have "\<dots> = - (sint ws * 1000000000)"
    using assms by (intro signed_take_bit_int_eq_self) auto
  finally show ?thesis .
qed

lemma extrapolate_one_second: "extrapolate (Suc 0) Second = 60"
  by (simp add: extrapolate_def sint_Second sint_Minute)

text \<open>
  Recording one action on a tracker that has none, and reading the rate at once: the
  action survives the pruning exactly when the cutoff \<^verbatim>\<open>now.Add(-window)\<close> lies
  strictly before it, and then the rate is 60; otherwise the rate is 0.
\<close>

lemma RecordAction_kept:
  assumes "actions a = []" and "sint ((- windowSeconds a) * Second) < 0"
  shows "Current (RecordAction t a) = 60"
proof -
  have keep: "time_After t (time_Add t ((- windowSeconds a) * Second))"
    using assms(2) by (simp add: time_After_def time_Add_def)
  show ?thesis
    using keep assms(1)
    by (simp add: Current_def RecordAction_def recalculate_def Let_def time_Sub_self
        word_sless_alt sint_Second sint_Minute extrapolate_one_second)
qed

lemma RecordAction_pruned:
  assumes "actions a = []" and "\<not> sint ((- windowSeconds a) * Second) < 0"
  shows "Current (RecordAction t a) = 0"
proof -
  have drop: "\<not> time_After t (time_Add t ((- windowSeconds a) * Second))"
    using assms(2) by (simp add: time_After_def time_Add_def)
  show ?thesis
    using drop assms(1)
    by (simp add: Current_def RecordAction_def recalculate_def Let_def)
qed

text \<open>
  Claim C8, as the code has it. For every tracker with no recorded action and every time
  \<open>t\<close>, recording one action at \<open>t\<close> and reading the rate at the same instant gives
  exactly 60 when the negated window, computed in Go's wrapping 64-bit nanoseconds, is
  negative, so that the cutoff lies before \<open>t\<close>, and 0 otherwise. It gives 60 for every
  positive window whose nanoseconds fit a \<^verbatim>\<open>Duration\<close>: one action, extrapolated to a
  minute over an elapsed time raised to one second. It gives 0 for a window of zero.
\<close>

theorem RecordAction_single_action_rate:
  "(actions a = [] \<longrightarrow>
      Current (RecordAction t a) =
        (if sint ((- windowSeconds a) * Second) < 0 then 60 else 0))
   \<and> (actions a = [] \<and> 0 < sint (windowSeconds a)
        \<and> sint (windowSeconds a) * 1000000000 < 2 ^ 63 \<longrightarrow>
      Current (RecordAction t a) = 60)
   \<and> (actions a = [] \<and> windowSeconds a = 0 \<longrightarrow> Current (RecordAction t a) = 0)"
proof -
  have a: "actions a = [] \<longrightarrow>
      Current (RecordAction t a) =
        (if sint ((- windowSeconds a) * Second) < 0 then 60 else 0)"
    using RecordAction_kept [of a t] RecordAction_pruned [of a t] by simp
  have b: "actions a = [] \<and> 0 < sint (windowSeconds a)
        \<and> sint (windowSeconds a) * 1000000000 < 2 ^ 63 \<longrightarrow>
      Current (RecordAction t a) = 60"
  proof
    assume h: "actions a = [] \<and> 0 < sint (windowSeconds a)
        \<and> sint (windowSeconds a) * 1000000000 < 2 ^ 63"
    then have "sint ((- windowSeconds a) * Second) < 0"
      using sint_neg_window [of "windowSeconds a"] by simp
    then show "Current (RecordAction t a) = 60"
      using h RecordAction_kept [of a t] by simp
  qed
  have c: "actions a = [] \<and> windowSeconds a = 0 \<longrightarrow> Current (RecordAction t a) = 0"
    using RecordAction_pruned [of a t] by simp
  show ?thesis using a b c by blast
qed

theorem RecordAction_single_action_rate_witness:
  "(actions (NewAPMTracker 60) = [] \<and> 0 < sint (windowSeconds (NewAPMTracker 60))
      \<and> sint (windowSeconds (NewAPMTracker 60)) * 1000000000 < 2 ^ 63
      \<and> Current (RecordAction 1000 (NewAPMTracker 60)) = 60)
   \<and> (actions (NewAPMTracker 0) = [] \<and> windowSeconds (NewAPMTracker 0) = 0
      \<and> Current (RecordAction 1000 (NewAPMTracker 0)) = 0)
   \<and> (actions (NewAPMTracker (- 5)) = []
      \<and> \<not> sint ((- windowSeconds (NewAPMTracker (- 5))) * Second) < 0
      \<and> Current (RecordAction 1000 (NewAPMTracker (- 5))) = 0)
   \<and> (actions (NewAPMTracker (- 9223372037)) = []
      \<and> sint ((- windowSeconds (NewAPMTracker (- 9223372037))) * Second) < 0
      \<and> Current (RecordAction 1000 (NewAPMTracker (- 9223372037))) = 60)"
proof -
  have f: "actions (NewAPMTracker 60) = []" "windowSeconds (NewAPMTracker 60) = 60"
      "actions (NewAPMTracker 0) = []" "windowSeconds (NewAPMTracker 0) = 0"
      "actions (NewAPMTracker (- 5)) = []" "windowSeconds (NewAPMTracker (- 5)) = - 5"
      "actions (NewAPMTracker (- 9223372037)) = []"
      "windowSeconds (NewAPMTracker (- 9223372037)) = - 9223372037"
    by (simp_all add: NewAPMTracker_def)
  have s60: "0 < sint (windowSeconds (NewAPMTracker 60))"
      "sint (windowSeconds (NewAPMTracker 60)) * 1000000000 < 2 ^ 63"
    by (simp_all add: f)
  have s5: "\<not> sint ((- windowSeconds (NewAPMTracker (- 5))) * Second) < 0"
    by (simp add: f Second_def)
  have sw: "sint ((- windowSeconds (NewAPMTracker (- 9223372037))) * Second) < 0"
    by (simp add: f Second_def)
  have c60: "Current (RecordAction 1000 (NewAPMTracker 60)) = 60"
    using RecordAction_single_action_rate [of "NewAPMTracker 60" 1000] f(1) s60 by blast
  have c0: "Current (RecordAction 1000 (NewAPMTracker 0)) = 0"
    using RecordAction_single_action_rate [of "NewAPMTracker 0" 1000] f(3,4) by blast
  have c5: "Current (RecordAction 1000 (NewAPMTracker (- 5))) = 0"
    using RecordAction_single_action_rate [of "NewAPMTracker (- 5)" 1000] f(5) s5 by simp
  have cw: "Current (RecordAction 1000 (NewAPMTracker (- 9223372037))) = 60"
    using RecordAction_single_action_rate [of "NewAPMTracker (- 9223372037)" 1000] f(7) sw
    by simp
  show ?thesis
    using f(1,3,4,5,7) s60 s5 sw c60 c0 c5 cw by blast
qed

text \<open>
  The claim as stated, for any configured window, fails at a window of zero seconds (a
  value the configuration file can give): the cutoff is then the instant of the action
  itself, the action is pruned as not after the cutoff, and the rate read is 0.
\<close>

theorem RecordAction_zero_window_counterexample:
  "Current (RecordAction 1000 (NewAPMTracker 0)) = 0
   \<and> Current (RecordAction 1000 (NewAPMTracker 0)) \<noteq> 60"
  by (simp add: Current_def RecordAction_def recalculate_def NewAPMTracker_def Let_def
      time_After_def time_Add_def)

section \<open>Properties of the pomodoro timer\<close>

lemma Start_from_stopped:
  "state p = PomodoroStopped \<Longrightarrow>
   Start now p = p\<lparr>state := PomodoroWork, remaining := workMinutes p * Minute, lastTick := now\<rparr>"
  by (simp add: Start_def)

lemma Tick_idle:
  "state p = PomodoroStopped \<or> state p = PomodoroPaused \<Longrightarrow> Tick now p = (p, [])"
  by (auto simp add: Tick_def)

lemma Tick_running:
  assumes "state p \<noteq> PomodoroStopped" "state p \<noteq> PomodoroPaused"
    and "time_Sub now (lastTick p) <s remaining p"
  shows "fst (Tick now p) =
     p\<lparr>lastTick := now, remaining := remaining p - time_Sub now (lastTick p)\<rparr>"
  using assms by (simp add: Tick_def Let_def split: prod.splits)

lemma Tick_work_expired:
  assumes "state p = PomodoroWork" and "\<not> time_Sub now (lastTick p) <s remaining p"
  shows "fst (Tick now p) =
     (if sessionsBeforeLongBreak p <=s completed p + 1
      then p\<lparr>lastTick := now, state := PomodoroLongBreak,
             remaining := longBreakMinutes p * Minute, completed := 0\<rparr>
      else p\<lparr>lastTick := now, state := PomodoroShortBreak,
             remaining := shortBreakMinutes p * Minute, completed := completed p + 1\<rparr>)"
  using assms by (simp add: Tick_def transition_def Let_def split: prod.splits)

lemma Tick_break_expired:
  assumes "state p = PomodoroShortBreak \<or> state p = PomodoroLongBreak"
    and "\<not> time_Sub now (lastTick p) <s remaining p"
  shows "fst (Tick now p) =
     p\<lparr>lastTick := now, state := PomodoroWork, remaining := workMinutes p * Minute\<rparr>"
  using assms by (auto simp add: Tick_def transition_def Let_def split: prod.splits)

lemma completed_changes_only_on_work_expiry:
  assumes "completed (pomodoro_step op p) \<noteq> completed p"
  shows "\<exists>now. op = OpTick now \<and> state p = PomodoroWork
            \<and> \<not> time_Sub now (lastTick p) <s remaining p"
proof (cases op)
  case (OpTick now)
  show ?thesis
  proof (cases "state p")
    case PomodoroStopped
    then show ?thesis using assms OpTick by (simp add: Tick_idle)
  next
    case PomodoroPaused
    then show ?thesis using assms OpTick by (simp add: Tick_idle)
  next
    case PomodoroWork
    then show ?thesis using assms OpTick
      by (cases "time_Sub now (lastTick p) <s remaining p") (simp_all add: Tick_running)
  next
    case PomodoroShortBreak
    then show ?thesis using assms OpTick
      by (cases "time_Sub now (lastTick p) <s remaining p")
         (simp_all add: Tick_running Tick_break_expired)
  next
    case PomodoroLongBreak
    then show ?thesis using assms OpTick
      by (cases "time_Sub now (lastTick p) <s remaining p")
         (simp_all add: Tick_running Tick_break_expired)
  qed
qed (use assms in \<open>auto simp add: Start_def Stop_def Pause_def Resume_def Toggle_def
      SetState_def OnComplete_def OnTick_def split: PomodoroState.splits if_splits\<close>)

text \<open>
  A tick during work that does not use up the remaining time: the timer stays in work and
  the remaining time drops by exactly the time since the last tick.
\<close>

lemma Tick_work_partial:
  assumes w: "state p = PomodoroWork" and le: "lastTick p \<le> u"
    and lt: "u - lastTick p < sint (remaining p)"
  shows "fst (Tick u p) = p\<lparr>lastTick := u, remaining := remaining p - time_Sub u (lastTick p)\<rparr>"
    and "sint (remaining (fst (Tick u p))) = sint (remaining p) - (u - lastTick p)"
proof -
  have b: "sint (remaining p) < 2 ^ 63" using sint_int64_bounds [of "remaining p"] by simp
  have el: "sint (time_Sub u (lastTick p)) = u - lastTick p"
    using le lt b by (simp add: sint_time_Sub)
  have run: "time_Sub u (lastTick p) <s remaining p"
    using lt el by (simp add: word_sless_alt)
  have eq: "fst (Tick u p) = p\<lparr>lastTick := u, remaining := remaining p - time_Sub u (lastTick p)\<rparr>"
    using w run by (simp add: Tick_running)
  have "sint (remaining p - time_Sub u (lastTick p)) =
          signed_take_bit 63 (sint (remaining p) - (u - lastTick p))"
    using sint_word_diff [of "remaining p" "time_Sub u (lastTick p)"] by (simp add: el)
  also have "\<dots> = sint (remaining p) - (u - lastTick p)"
    using le lt b by (intro signed_take_bit_int_eq_self) auto
  finally show "sint (remaining (fst (Tick u p))) = sint (remaining p) - (u - lastTick p)"
    using eq by simp
  show "fst (Tick u p) = p\<lparr>lastTick := u, remaining := remaining p - time_Sub u (lastTick p)\<rparr>"
    by (rule eq)
qed

lemma Ticks_work_partial:
  assumes "state p = PomodoroWork" and "sorted (lastTick p # ts)"
    and "\<forall>u \<in> set ts. u - lastTick p < sint (remaining p)"
  shows "state (Ticks ts p) = PomodoroWork
         \<and> completed (Ticks ts p) = completed p
         \<and> sessionsBeforeLongBreak (Ticks ts p) = sessionsBeforeLongBreak p
         \<and> lastTick (Ticks ts p) = last (lastTick p # ts)
         \<and> sint (remaining (Ticks ts p)) =
             sint (remaining p) - (last (lastTick p # ts) - lastTick p)"
  using assms
proof (induction ts arbitrary: p)
  case Nil
  then show ?case by simp
next
  case (Cons u ts)
  let ?q = "fst (Tick u p)"
  have le: "lastTick p \<le> u" using Cons.prems(2) by simp
  have lt: "u - lastTick p < sint (remaining p)" using Cons.prems(3) by simp
  note step = Tick_work_partial [OF Cons.prems(1) le lt]
  have q: "state ?q = PomodoroWork" "lastTick ?q = u" "completed ?q = completed p"
    "sessionsBeforeLongBreak ?q = sessionsBeforeLongBreak p"
    using step(1) Cons.prems(1) by simp_all
  have rq: "sint (remaining ?q) = sint (remaining p) - (u - lastTick p)"
    by (rule step(2))
  have s: "sorted (lastTick ?q # ts)" using Cons.prems(2) q by simp
  have b: "\<forall>v \<in> set ts. v - lastTick ?q < sint (remaining ?q)"
    using Cons.prems(3) q rq by auto
  note ih = Cons.IH [OF q(1) s b]
  show ?case using ih q rq by (cases ts) auto
qed

lemma Ticks_snoc: "Ticks (ts @ [t]) p = fst (Tick t (Ticks ts p))"
  by (induction ts arbitrary: p) simp_all

text \<open>
  Work ends at the first tick at which the time since the start of the interval has
  reached the remaining time, however many ticks came before.
\<close>

lemma work_expiry_after_ticks:
  assumes "state p = PomodoroWork" and "sorted (lastTick p # ts @ [t])"
    and "\<forall>u \<in> set ts. u - lastTick p < sint (remaining p)"
    and "sint (remaining p) \<le> t - lastTick p"
  shows "state (Ticks (ts @ [t]) p) =
           (if sessionsBeforeLongBreak p <=s completed p + 1
            then PomodoroLongBreak else PomodoroShortBreak)
         \<and> completed (Ticks (ts @ [t]) p) =
           (if sessionsBeforeLongBreak p <=s completed p + 1 then 0 else completed p + 1)"
proof -
  let ?q = "Ticks ts p"
  have s: "sorted (lastTick p # ts)" using assms(2) by (simp add: sorted_append)
  note q = Ticks_work_partial [OF assms(1) s assms(3)]
  have "sint (remaining ?q) \<le> t - lastTick ?q" using q assms(4) by simp
  then have ex: "\<not> time_Sub t (lastTick ?q) <s remaining ?q"
    by (rule time_Sub_beyond)
  show ?thesis
    using Tick_work_expired [of ?q t] q ex by (simp add: Ticks_snoc)
qed

text \<open>
  Claim C7. Starting the timer from stopped puts it in work, with the configured work
  duration remaining. Once the ticks since then have used up the work duration (the first
  tick whose elapsed time is at least the remaining time), the state is the short break,
  or the long break with the completed counter reset when the incremented counter reaches
  the configured threshold; otherwise the counter goes up by one. The counter changes in
  no other way: not when a break expires, which always brings the timer back to work, and
  not in any other operation.
\<close>

theorem PomodoroTimer_work_cycle:
  "(state p = PomodoroStopped \<longrightarrow>
      Start now p =
        p\<lparr>state := PomodoroWork, remaining := workMinutes p * Minute, lastTick := now\<rparr>)
   \<and> (state p = PomodoroWork \<and> \<not> time_Sub now (lastTick p) <s remaining p \<longrightarrow>
      fst (Tick now p) =
        (if sessionsBeforeLongBreak p <=s completed p + 1
         then p\<lparr>lastTick := now, state := PomodoroLongBreak,
                remaining := longBreakMinutes p * Minute, completed := 0\<rparr>
         else p\<lparr>lastTick := now, state := PomodoroShortBreak,
                remaining := shortBreakMinutes p * Minute, completed := completed p + 1\<rparr>))
   \<and> (state p = PomodoroWork \<and> sorted (lastTick p # ts @ [t])
        \<and> (\<forall>u \<in> set ts. u - lastTick p < sint (remaining p))
        \<and> sint (remaining p) \<le> t - lastTick p \<longrightarrow>
      state (Ticks (ts @ [t]) p) =
        (if sessionsBeforeLongBreak p <=s completed p + 1
         then PomodoroLongBreak else PomodoroShortBreak)
      \<and> completed (Ticks (ts @ [t]) p) =
        (if sessionsBeforeLongBreak p <=s completed p + 1 then 0 else completed p + 1))
   \<and> ((state p = PomodoroShortBreak \<or> state p = PomodoroLongBreak)
        \<and> \<not> time_Sub now (lastTick p) <s remaining p \<longrightarrow>
      fst (Tick now p) =
        p\<lparr>lastTick := now, state := PomodoroWork, remaining := workMinutes p * Minute\<rparr>)
   \<and> (completed (pomodoro_step op p) \<noteq> completed p \<longrightarrow>
      (\<exists>now'. op = OpTick now' \<and> state p = PomodoroWork
         \<and> \<not> time_Sub now' (lastTick p) <s remaining p))"
  using Start_from_stopped [of p now] Tick_work_expired [of p now]
    work_expiry_after_ticks [of p ts t] Tick_break_expired [of p now]
    completed_changes_only_on_work_expiry [of op p]
  by blast

lemma test_timer_started_eq:
  "test_timer_started =
     \<lparr>state = PomodoroWork, pausedState = PomodoroStopped, remaining = 1500000000000,
      lastTick = 0, completed = 0, workMinutes = 25, shortBreakMinutes = 5,
      longBreakMinutes = 15, sessionsBeforeLongBreak = 4, onComplete = False,
      onTick = False\<rparr>"
  by (simp add: test_timer_started_def test_timer_def NewPomodoroTimer_def Start_def Minute_def)

theorem PomodoroTimer_work_cycle_witness:
  "(state test_timer = PomodoroStopped
      \<and> state (Start 0 test_timer) = PomodoroWork
      \<and> remaining (Start 0 test_timer) = 25 * Minute)
   \<and> (state test_timer_started = PomodoroWork
      \<and> \<not> time_Sub 1500000000000 (lastTick test_timer_started) <s remaining test_timer_started
      \<and> state (fst (Tick 1500000000000 test_timer_started)) = PomodoroShortBreak
      \<and> completed (fst (Tick 1500000000000 test_timer_started)) = 1)
   \<and> (state (test_timer_started\<lparr>completed := 3\<rparr>) = PomodoroWork
      \<and> \<not> time_Sub 1500000000000 (lastTick (test_timer_started\<lparr>completed := 3\<rparr>))
            <s remaining (test_timer_started\<lparr>completed := 3\<rparr>)
      \<and> state (fst (Tick 1500000000000 (test_timer_started\<lparr>completed := 3\<rparr>)))
          = PomodoroLongBreak
      \<and> completed (fst (Tick 1500000000000 (test_timer_started\<lparr>completed := 3\<rparr>))) = 0)
   \<and> (sorted (lastTick test_timer_started # [1000000000, 600000000000] @ [1500000000000])
      \<and> 1000000000 - lastTick test_timer_started < sint (remaining test_timer_started)
      \<and> 600000000000 - lastTick test_timer_started < sint (remaining test_timer_started)
      \<and> sint (remaining test_timer_started) \<le> 1500000000000 - lastTick test_timer_started
      \<and> state (Ticks ([1000000000, 600000000000] @ [1500000000000]) test_timer_started)
          = PomodoroShortBreak
      \<and> completed (Ticks ([1000000000, 600000000000] @ [1500000000000]) test_timer_started)
          = 1)
   \<and> (state (fst (Tick 1500000000000 test_timer_started)) = PomodoroShortBreak
      \<and> \<not> time_Sub 1800000000000 (lastTick (fst (Tick 1500000000000 test_timer_started)))
            <s remaining (fst (Tick 1500000000000 test_timer_started))
      \<and> state (fst (Tick 1800000000000 (fst (Tick 1500000000000 test_timer_started))))
          = PomodoroWork
      \<and> completed (fst (Tick 1800000000000 (fst (Tick 1500000000000 test_timer_started))))
          = 1)
   \<and> (completed (pomodoro_step (OpTick 1500000000000) test_timer_started)
        \<noteq> completed test_timer_started)"
proof -
  let ?p = test_timer_started
  let ?p3 = "test_timer_started\<lparr>completed := 3\<rparr>"
  let ?q = "fst (Tick 1500000000000 test_timer_started)"
  have stopped: "state test_timer = PomodoroStopped" and wm: "workMinutes test_timer = 25"
    by (simp_all add: test_timer_def NewPomodoroTimer_def)
  have f: "state ?p = PomodoroWork" "lastTick ?p = 0" "remaining ?p = 1500000000000"
      "completed ?p = 0" "sessionsBeforeLongBreak ?p = 4" "workMinutes ?p = 25"
      "shortBreakMinutes ?p = 5" "longBreakMinutes ?p = 15"
    by (simp_all add: test_timer_started_eq)
  have sub1: "time_Sub 1500000000000 0 = 1500000000000"
    by (simp add: time_Sub_def)
  have sub2: "time_Sub 1800000000000 1500000000000 = 300000000000"
    by (simp add: time_Sub_def)
  have c1: "state (Start 0 test_timer) = PomodoroWork
            \<and> remaining (Start 0 test_timer) = 25 * Minute"
    using PomodoroTimer_work_cycle [of test_timer 0 "[]" 0 OpStop] stopped wm by simp
  have exp1: "\<not> time_Sub 1500000000000 (lastTick ?p) <s remaining ?p"
    by (simp add: f sub1)
  have q: "?q = ?p\<lparr>lastTick := 1500000000000, state := PomodoroShortBreak,
        remaining := 5 * Minute, completed := 1\<rparr>"
    using PomodoroTimer_work_cycle [of ?p 1500000000000 "[]" 0 OpStop] exp1
    by (simp add: f word_sle_eq)
  have exp3: "\<not> time_Sub 1500000000000 (lastTick ?p3) <s remaining ?p3"
    by (simp add: f sub1)
  have q3: "fst (Tick 1500000000000 ?p3) = ?p3\<lparr>lastTick := 1500000000000,
        state := PomodoroLongBreak, remaining := 15 * Minute, completed := 0\<rparr>"
    using PomodoroTimer_work_cycle [of ?p3 1500000000000 "[]" 0 OpStop] exp3
    by (simp add: f word_sle_eq)
  have h4: "sorted (lastTick ?p # [1000000000, 600000000000] @ [1500000000000])"
      "\<forall>u \<in> set [1000000000, 600000000000]. u - lastTick ?p < sint (remaining ?p)"
      "sint (remaining ?p) \<le> 1500000000000 - lastTick ?p"
    by (simp_all add: f)
  have h4': "1000000000 - lastTick ?p < sint (remaining ?p)"
      "600000000000 - lastTick ?p < sint (remaining ?p)"
    by (simp_all add: f)
  have c4: "state (Ticks ([1000000000, 600000000000] @ [1500000000000]) ?p) = PomodoroShortBreak
      \<and> completed (Ticks ([1000000000, 600000000000] @ [1500000000000]) ?p) = 1"
    using PomodoroTimer_work_cycle [of ?p 0 "[1000000000, 600000000000]" 1500000000000 OpStop]
      h4 f(1)
    by (simp add: f(4,5) word_sle_eq)
  have exp5: "\<not> time_Sub 1800000000000 (lastTick ?q) <s remaining ?q"
    by (simp add: q sub2 Minute_def)
  have c5: "fst (Tick 1800000000000 ?q) =
      ?q\<lparr>lastTick := 1800000000000, state := PomodoroWork, remaining := workMinutes ?q * Minute\<rparr>"
    using PomodoroTimer_work_cycle [of ?q 1800000000000 "[]" 0 OpStop] exp5
    by (simp add: q)
  have c2: "state ?q = PomodoroShortBreak \<and> completed ?q = 1"
    by (simp add: q)
  have c3: "state (fst (Tick 1500000000000 ?p3)) = PomodoroLongBreak
      \<and> completed (fst (Tick 1500000000000 ?p3)) = 0"
    by (simp add: q3)
  have c5': "state (fst (Tick 1800000000000 ?q)) = PomodoroWork
      \<and> completed (fst (Tick 1800000000000 ?q)) = 1"
    using c5 c2 by simp
  have c6: "completed (pomodoro_step (OpTick 1500000000000) ?p) \<noteq> completed ?p"
    using c2 by (simp add: f)
  have w3: "state ?p3 = PomodoroWork"
    by (simp add: f)
  show ?thesis
    using stopped c1 f(1) exp1 c2 w3 exp3 c3 h4(1,3) h4' c4 exp5 c5' c6
    by blast
qed

section \<open>Properties of the control groups\<close>

lemma cg_step_lastTap:
  "\<not> cycles_slot g op \<Longrightarrow>
   lastTap (cg_step op c) g = lastTap c g \<and> tapThreshold (cg_step op c) = tapThreshold c"
  by (cases op)
     (auto simp add: Assign_def Remove_def RemoveSession_def Cycle_def Load_def Let_def)

lemma cg_run_lastTap:
  "\<not> list_ex (cycles_slot g) ops \<Longrightarrow>
   lastTap (cg_run ops c) g = lastTap c g \<and> tapThreshold (cg_run ops c) = tapThreshold c"
proof (induction ops arbitrary: c)
  case Nil
  then show ?case by simp
next
  case (Cons op ops)
  then show ?case using cg_step_lastTap [of g op c] by simp
qed

lemma Cycle_effect:
  "lastTap (snd (Cycle t g c)) = (lastTap c)(g \<mapsto> t)
   \<and> groups (snd (Cycle t g c)) = groups c
   \<and> tapThreshold (snd (Cycle t g c)) = tapThreshold c
   \<and> fst (fst (Cycle t g c)) = Get g c"
  by (simp add: Cycle_def Let_def Get_def lookup_group_def)

lemma Cycle_after_tap:
  "lastTap c g = Some t1 \<Longrightarrow> snd (fst (Cycle t2 g c)) = (time_Sub t2 t1 <s tapThreshold c)"
  by (simp add: Cycle_def Let_def)

lemma Cycle_first_tap: "lastTap c g = None \<Longrightarrow> \<not> snd (fst (Cycle t g c))"
  by (simp add: Cycle_def Let_def)

lemma Cycle_twice:
  assumes "\<not> list_ex (cycles_slot g) ops"
  shows "snd (fst (Cycle t2 g (cg_run ops (snd (Cycle t1 g c))))) =
           (time_Sub t2 t1 <s tapThreshold c)"
proof -
  let ?c1 = "snd (Cycle t1 g c)"
  have "lastTap (cg_run ops ?c1) g = Some t1" "tapThreshold (cg_run ops ?c1) = tapThreshold c"
    using cg_run_lastTap [OF assms, of ?c1] Cycle_effect [of t1 g c] by simp_all
  then show ?thesis using Cycle_after_tap [of "cg_run ops ?c1" g t1 t2] by simp
qed

text \<open>
  Claim C9, as the code has it. Take two calls of \<^verbatim>\<open>Cycle\<close> on one slot, at times
  \<open>t1\<close> and then \<open>t2\<close>, with no other \<^verbatim>\<open>Cycle\<close> on that slot between them (any
  other operations may come between). The second call reports a double tap exactly when
  the time between the calls, as \<^verbatim>\<open>t2.Sub(t1)\<close>, is strictly less than the threshold:
  calls closer together than the threshold give true, calls exactly as far apart as the
  threshold, or farther, give false. A slot never cycled gives false. Every call records
  its time as the slot's last tap, whatever it reports, leaves the assignments as they
  are, and returns the session assigned to the slot, the empty string if there is none.
\<close>

theorem Cycle_double_tap:
  "(\<not> list_ex (cycles_slot g) ops \<longrightarrow>
      snd (fst (Cycle t2 g (cg_run ops (snd (Cycle t1 g c))))) =
        (time_Sub t2 t1 <s tapThreshold c))
   \<and> (\<not> list_ex (cycles_slot g) ops \<and> t1 \<le> t2 \<and> t2 - t1 < sint (tapThreshold c) \<longrightarrow>
      snd (fst (Cycle t2 g (cg_run ops (snd (Cycle t1 g c))))))
   \<and> (\<not> list_ex (cycles_slot g) ops \<and> sint (tapThreshold c) \<le> t2 - t1 \<longrightarrow>
      \<not> snd (fst (Cycle t2 g (cg_run ops (snd (Cycle t1 g c))))))
   \<and> (lastTap c g = None \<longrightarrow> \<not> snd (fst (Cycle t1 g c)))
   \<and> lastTap (snd (Cycle t1 g c)) = (lastTap c)(g \<mapsto> t1)
   \<and> groups (snd (Cycle t1 g c)) = groups c
   \<and> fst (fst (Cycle t1 g c)) = (case groups c g of None \<Rightarrow> '''' | Some s \<Rightarrow> s)"
  using Cycle_twice [of g ops t2 t1 c] time_Sub_within [of t1 t2 "tapThreshold c"]
    time_Sub_beyond [of "tapThreshold c" t2 t1] Cycle_first_tap [of c g t1]
    Cycle_effect [of t1 g c]
  by (simp add: Get_def lookup_group_def)

theorem Cycle_double_tap_witness:
  "(\<not> list_ex (cycles_slot 1) [OpAssign 2 ''session-b'', OpCycle 50000000 2]
      \<and> (0::int) \<le> 100000000 \<and> 100000000 - 0 < sint (tapThreshold test_groups)
      \<and> snd (fst (Cycle 100000000 1
            (cg_run [OpAssign 2 ''session-b'', OpCycle 50000000 2]
               (snd (Cycle 0 1 test_groups))))))
   \<and> (\<not> list_ex (cycles_slot 1) []
      \<and> sint (tapThreshold test_groups) \<le> 400000000 - 0
      \<and> \<not> snd (fst (Cycle 400000000 1 (cg_run [] (snd (Cycle 0 1 test_groups))))))
   \<and> (lastTap test_groups 1 = None \<and> \<not> snd (fst (Cycle 0 1 test_groups)))
   \<and> lastTap (snd (Cycle 0 1 test_groups)) 1 = Some 0
   \<and> fst (fst (Cycle 0 1 test_groups)) = ''session-a''
   \<and> fst (fst (Cycle 0 2 test_groups)) = ''''"
proof -
  have th: "sint (tapThreshold test_groups) = 300000000"
    by (simp add: test_groups_def Assign_def NewControlGroups_def Millisecond_def)
  have g: "groups test_groups 1 = Some ''session-a''" "groups test_groups 2 = None"
      "lastTap test_groups 1 = None"
    by (simp_all add: test_groups_def Assign_def NewControlGroups_def)
  have n: "\<not> list_ex (cycles_slot 1) [OpAssign 2 ''session-b'', OpCycle 50000000 2]"
      "\<not> list_ex (cycles_slot 1) []"
    by simp_all
  show ?thesis
    using Cycle_double_tap [of 1 "[OpAssign 2 ''session-b'', OpCycle 50000000 2]"
        100000000 0 test_groups]
      Cycle_double_tap [of 1 "[]" 400000000 0 test_groups]
      Cycle_double_tap [of 2 "[]" 0 0 test_groups]
      th g n
    by (simp add: word_sless_alt sint_time_Sub)
qed

text \<open>
  The claim as stated puts two calls within the threshold on the side of a double tap and
  only calls farther apart than the threshold on the other side. It fails where the gap
  equals the threshold: with the threshold of 300 milliseconds, two calls exactly 300
  milliseconds apart are within the threshold and not farther apart than it, and the
  second call reports no double tap, the comparison of the source being strict.
\<close>

theorem Cycle_gap_equal_threshold_counterexample:
  "sint (tapThreshold test_groups) = 300000000
   \<and> (300000000 :: int) - 0 \<le> sint (tapThreshold test_groups)
   \<and> \<not> (sint (tapThreshold test_groups) < 300000000 - 0)
   \<and> snd (fst (Cycle 300000000 1 (snd (Cycle 0 1 test_groups)))) = False"
proof -
  have th: "tapThreshold test_groups = 300000000"
    by (simp add: test_groups_def Assign_def NewControlGroups_def Millisecond_def)
  have sub: "time_Sub 300000000 0 = 300000000"
    by (simp add: time_Sub_def)
  have "snd (fst (Cycle 300000000 1 (snd (Cycle 0 1 test_groups)))) = False"
    by (simp add: Cycle_def Let_def th sub)
  then show ?thesis by (simp add: th)
qed

section \<open>Removing a session from a slot\<close>

lemma Remove_empty: "groups c g = None \<Longrightarrow> Remove g session c = c"
proof -
  assume "groups c g = None"
  then have "(groups c)(g := None) = groups c" by (simp add: fun_upd_idem)
  then show ?thesis by (simp add: Remove_def)
qed

text \<open>
  Claim C10. \<^verbatim>\<open>Remove(slot, session)\<close> clears the slot only when the slot holds exactly
  the named session. When the slot holds another session, or no session, the registry is
  unchanged: every slot's assignment and every last-tap time. In every case the other
  slots, the last-tap times and the threshold are as before.
\<close>

theorem Remove_clears_only_named_session:
  "(lookup_group c g = session \<longrightarrow>
       Remove g session c = c\<lparr>groups := (groups c)(g := None)\<rparr>
       \<and> Get g (Remove g session c) = '''')
   \<and> (lookup_group c g \<noteq> session \<longrightarrow> Remove g session c = c)
   \<and> (groups c g = None \<longrightarrow> Remove g session c = c)
   \<and> (lookup_group c g = '''' \<longrightarrow> Get g' (Remove g session c) = Get g' c)
   \<and> (g' \<noteq> g \<longrightarrow> groups (Remove g session c) g' = groups c g')
   \<and> lastTap (Remove g session c) = lastTap c
   \<and> tapThreshold (Remove g session c) = tapThreshold c"
  using Remove_empty [of c g session]
  by (auto simp add: Remove_def Get_def lookup_group_def split: option.splits)

theorem Remove_clears_only_named_session_witness:
  "(lookup_group test_groups 1 = ''session-a''
      \<and> Get 1 (Remove 1 ''session-a'' test_groups) = '''')
   \<and> (lookup_group test_groups 1 \<noteq> ''session-b''
      \<and> Remove 1 ''session-b'' test_groups = test_groups)
   \<and> (groups test_groups 2 = None \<and> Remove 2 ''session-a'' test_groups = test_groups)
   \<and> (lookup_group test_groups 2 = ''''
      \<and> Get 1 (Remove 2 '''' test_groups) = Get 1 test_groups)
   \<and> ((1 :: go_int) \<noteq> 2
      \<and> groups (Remove 2 ''session-a'' test_groups) 1 = groups test_groups 1)"
proof -
  have g: "lookup_group test_groups 1 = ''session-a''" "groups test_groups 2 = None"
      "lookup_group test_groups 2 = ''''"
    by (simp_all add: test_groups_def Assign_def NewControlGroups_def lookup_group_def)
  show ?thesis
    using Remove_clears_only_named_session [of test_groups 1 "''session-a''" 1]
      Remove_clears_only_named_session [of test_groups 1 "''session-b''" 1]
      Remove_clears_only_named_session [of test_groups 2 "''session-a''" 1]
      Remove_clears_only_named_session [of test_groups 2 "''''" 1]
      g
    by (simp add: Get_def lookup_group_def)
qed

section \<open>Properties of state detection\<close>

text \<open>Two checks of the matcher: a literal matches exactly at its occurrences.\<close>

lemma rems_lit: "rems (lit p) s = (if take (length p) s = p then [drop (length p) s] else [])"
proof (induction p arbitrary: s)
  case Nil
  then show ?case by simp
next
  case (Cons c p)
  show ?case
  proof (cases s)
    case Nil
    then show ?thesis by simp
  next
    case (Cons x xs)
    then show ?thesis using Cons.IH [of xs] by simp
  qed
qed

lemma MatchString_lit: "MatchString (lit p) s \<longleftrightarrow> (\<exists>u v. s = u @ p @ v)"
proof (induction s)
  case Nil
  then show ?case by (auto simp add: rems_lit)
next
  case (Cons c cs)
  have here: "take (length p) (c # cs) = p \<longleftrightarrow> (\<exists>v. c # cs = p @ v)"
  proof
    assume "take (length p) (c # cs) = p"
    then have "c # cs = p @ drop (length p) (c # cs)"
      using append_take_drop_id [of "length p" "c # cs"] by simp
    then show "\<exists>v. c # cs = p @ v" ..
  next
    assume "\<exists>v. c # cs = p @ v"
    then obtain v where "c # cs = p @ v" ..
    then show "take (length p) (c # cs) = p" by simp
  qed
  have split: "(\<exists>u v. c # cs = u @ p @ v) \<longleftrightarrow>
      (\<exists>v. c # cs = p @ v) \<or> (\<exists>u v. cs = u @ p @ v)"
  proof
    assume "\<exists>u v. c # cs = u @ p @ v"
    then obtain u v where uv: "c # cs = u @ p @ v" by blast
    show "(\<exists>v. c # cs = p @ v) \<or> (\<exists>u v. cs = u @ p @ v)"
    proof (cases u)
      case Nil
      then show ?thesis using uv by auto
    next
      case (Cons x xs)
      then show ?thesis using uv by auto
    qed
  next
    assume "(\<exists>v. c # cs = p @ v) \<or> (\<exists>u v. cs = u @ p @ v)"
    then show "\<exists>u v. c # cs = u @ p @ v"
    proof
      assume "\<exists>v. c # cs = p @ v"
      then obtain v where "c # cs = [] @ p @ v" by auto
      then show ?thesis by blast
    next
      assume "\<exists>u v. cs = u @ p @ v"
      then obtain u v where "c # cs = (c # u) @ p @ v" by auto
      then show ?thesis by blast
    qed
  qed
  show ?case using Cons here split by (simp add: rems_lit)
qed

text \<open>
  Claim C1. For every input text and every detector: if, after the ANSI escape sequences
  are stripped, some urgent pattern and some idle pattern both match within the window of
  the last 20 lines, \<^verbatim>\<open>DetectState\<close> returns the urgent state. Nothing is assumed
  about where in the window either match lies, nor about the thinking patterns.
\<close>

theorem DetectState_urgent_priority:
  assumes "list_ex (\<lambda>p. MatchString p (getLastLines (stripANSI content) 20)) (urgentPatterns d)"
    and "list_ex (\<lambda>p. MatchString p (getLastLines (stripANSI content) 20)) (idlePatterns d)"
  shows "DetectState d content lastContent lastCapture = StateUrgent"
  using assms(1) by (simp add: DetectState_def Let_def)

theorem DetectState_urgent_priority_witness:
  "list_ex (\<lambda>p. MatchString p (getLastLines (stripANSI urgent_then_idle) 20))
     (urgentPatterns NewDetector)
   \<and> list_ex (\<lambda>p. MatchString p (getLastLines (stripANSI urgent_then_idle) 20))
     (idlePatterns NewDetector)
   \<and> DetectState NewDetector urgent_then_idle [] 0 = StateUrgent
   \<and> list_ex (\<lambda>p. MatchString p (getLastLines (stripANSI idle_then_urgent) 20))
     (urgentPatterns NewDetector)
   \<and> list_ex (\<lambda>p. MatchString p (getLastLines (stripANSI idle_then_urgent) 20))
     (idlePatterns NewDetector)
   \<and> DetectState NewDetector idle_then_urgent [] 0 = StateUrgent"
proof -
  have u1: "list_ex (\<lambda>p. MatchString p (getLastLines (stripANSI urgent_then_idle) 20))
     (urgentPatterns NewDetector)"
    by code_simp
  have i1: "list_ex (\<lambda>p. MatchString p (getLastLines (stripANSI urgent_then_idle) 20))
     (idlePatterns NewDetector)"
    by code_simp
  have u2: "list_ex (\<lambda>p. MatchString p (getLastLines (stripANSI idle_then_urgent) 20))
     (urgentPatterns NewDetector)"
    by code_simp
  have i2: "list_ex (\<lambda>p. MatchString p (getLastLines (stripANSI idle_then_urgent) 20))
     (idlePatterns NewDetector)"
    by code_simp
  have c1: "DetectState NewDetector urgent_then_idle [] 0 = StateUrgent"
    by (rule DetectState_urgent_priority [of urgent_then_idle NewDetector "[]" 0, OF u1 i1])
  have c2: "DetectState NewDetector idle_then_urgent [] 0 = StateUrgent"
    by (rule DetectState_urgent_priority [of idle_then_urgent NewDetector "[]" 0, OF u2 i2])
  show ?thesis
    by (intro conjI) (rule u1 i1 c1 u2 i2 c2)+
qed

section \<open>Properties of the event channel\<close>

lemma send_events_Sent: "send_events buf es = Sent buf' \<Longrightarrow> buf' = buf @ es"
proof (induction es arbitrary: buf)
  case Nil
  then show ?case by simp
next
  case (Cons e es)
  show ?case
  proof (cases "length buf < eventCh_capacity")
    case True
    then have "send_events (buf @ [e]) es = Sent buf'"
      using Cons.prems by (simp add: chan_send_def)
    then have "buf' = (buf @ [e]) @ es" by (rule Cons.IH)
    then show ?thesis by simp
  next
    case False
    then show ?thesis using Cons.prems by (simp add: chan_send_def)
  qed
qed

lemma length_full_buffer: "length full_buffer = 100"
  by (simp add: full_buffer_def)

text \<open>
  Claim C4 as stated: when the queue is full, an emitted debug event is dropped, the
  producer goes on and the queue is unchanged. It fails: with the debug flag set and 100
  events in the buffer, the send of \<^verbatim>\<open>debugLog\<close> blocks.
\<close>

theorem debugLog_full_queue_counterexample:
  "send_events full_buffer (debugLog debug_monitor ''tmux not running'' 0) = Blocked
   \<and> send_events full_buffer (debugLog debug_monitor ''tmux not running'' 0)
       \<noteq> Sent full_buffer"
  by (simp add: debugLog_def debug_monitor_def NewMonitor_def chan_send_def
      eventCh_capacity_def length_full_buffer)

text \<open>
  Claim C4, as the code has it. When the queue is full, a debug event is not dropped: its
  send blocks, as the send of every other kind of event does, until a receive makes room.
  A send that completes has put its event at the end of the queue, so no event of any
  kind is ever dropped, and a run of sends that completes has queued all its events in
  order. A debug message produces no event only when the debug flag is off.
\<close>

theorem eventCh_send_blocks_never_drops:
  "(debug m \<and> eventCh_capacity \<le> length buf \<longrightarrow>
      send_events buf (debugLog m format now) = Blocked)
   \<and> (\<not> debug m \<longrightarrow> debugLog m format now = [])
   \<and> (eventCh_capacity \<le> length buf \<longrightarrow> chan_send buf e = Blocked)
   \<and> (length buf < eventCh_capacity \<longrightarrow> chan_send buf e = Sent (buf @ [e]))
   \<and> (chan_send buf e = Sent buf' \<longrightarrow> buf' = buf @ [e])
   \<and> (send_events buf es = Sent buf' \<longrightarrow> buf' = buf @ es)
   \<and> (length buf = eventCh_capacity \<and> chan_receive buf = Some (x, rest) \<longrightarrow>
        chan_send rest e = Sent (rest @ [e]))"
proof -
  have a: "debug m \<and> eventCh_capacity \<le> length buf \<longrightarrow>
      send_events buf (debugLog m format now) = Blocked"
    by (simp add: debugLog_def chan_send_def)
  have b: "\<not> debug m \<longrightarrow> debugLog m format now = []"
    by (simp add: debugLog_def)
  have c: "eventCh_capacity \<le> length buf \<longrightarrow> chan_send buf e = Blocked"
    by (simp add: chan_send_def)
  have d: "length buf < eventCh_capacity \<longrightarrow> chan_send buf e = Sent (buf @ [e])"
    by (simp add: chan_send_def)
  have e: "chan_send buf e = Sent buf' \<longrightarrow> buf' = buf @ [e]"
    by (auto simp add: chan_send_def split: if_splits)
  have f: "send_events buf es = Sent buf' \<longrightarrow> buf' = buf @ es"
    using send_events_Sent by blast
  have g: "length buf = eventCh_capacity \<and> chan_receive buf = Some (x, rest) \<longrightarrow>
        chan_send rest e = Sent (rest @ [e])"
    by (cases buf) (auto simp add: chan_receive_def chan_send_def)
  show ?thesis using a b c d e f g by blast
qed

theorem eventCh_send_blocks_never_drops_witness:
  "(debug debug_monitor \<and> eventCh_capacity \<le> length full_buffer
      \<and> send_events full_buffer (debugLog debug_monitor ''tmux not running'' 0) = Blocked)
   \<and> (\<not> debug (NewMonitor False False)
      \<and> debugLog (NewMonitor False False) ''tmux not running'' 0 = [])
   \<and> (eventCh_capacity \<le> length full_buffer
      \<and> chan_send full_buffer sample_event = Blocked)
   \<and> (length [sample_event] < eventCh_capacity
      \<and> chan_send [sample_event] sample_event = Sent [sample_event, sample_event])
   \<and> (send_events [] [sample_event, sample_event] = Sent [sample_event, sample_event])
   \<and> (length full_buffer = eventCh_capacity
      \<and> chan_receive full_buffer = Some (sample_event, replicate 99 sample_event)
      \<and> chan_send (replicate 99 sample_event) sample_event
          = Sent (replicate 99 sample_event @ [sample_event]))"
proof -
  have h1: "debug debug_monitor" "\<not> debug (NewMonitor False False)"
    by (simp_all add: debug_monitor_def NewMonitor_def)
  have h2: "eventCh_capacity \<le> length full_buffer" "length full_buffer = eventCh_capacity"
      "length [sample_event] < eventCh_capacity"
    by (simp_all add: eventCh_capacity_def length_full_buffer)
  have h3: "chan_receive full_buffer = Some (sample_event, replicate 99 sample_event)"
  proof -
    have "replicate 100 sample_event = sample_event # replicate 99 sample_event"
      using replicate_Suc [of 99 sample_event] by simp
    then show ?thesis by (simp add: chan_receive_def full_buffer_def)
  qed
  have h4: "send_events [] [sample_event, sample_event] = Sent [sample_event, sample_event]"
    by (simp add: chan_send_def eventCh_capacity_def)
  note t1 = eventCh_send_blocks_never_drops
    [of debug_monitor full_buffer "''tmux not running''" 0 sample_event
      "[sample_event, sample_event]" "[]" sample_event "replicate 99 sample_event"]
  note t2 = eventCh_send_blocks_never_drops
    [of "NewMonitor False False" "[sample_event]" "''tmux not running''" 0 sample_event
      "[sample_event, sample_event]" "[]" sample_event "[]"]
  have c1: "send_events full_buffer (debugLog debug_monitor ''tmux not running'' 0) = Blocked"
    using t1 h1(1) h2(1) by blast
  have c2: "debugLog (NewMonitor False False) ''tmux not running'' 0 = []"
    using t2 h1(2) by blast
  have c3: "chan_send full_buffer sample_event = Blocked"
    using t1 h2(1) by blast
  have c4: "chan_send [sample_event] sample_event = Sent [sample_event, sample_event]"
    using t2 h2(3) by simp
  have c5: "chan_send (replicate 99 sample_event) sample_event
          = Sent (replicate 99 sample_event @ [sample_event])"
    using t1 h2(2) h3 by blast
  show ?thesis
    using h1 h2 h3 h4 c1 c2 c3 c4 c5 by blast
qed

section \<open>Properties of the poll step\<close>

lemma debugLog_debug: "list_all (\<lambda>e. ev_Type e = EventDebug) (debugLog m format now)"
  by (simp add: debugLog_def)

lemma findClaudePane_debug:
  "list_all (\<lambda>e. ev_Type e = EventDebug) (snd (findClaudePane env now m session))"
  by (simp add: findClaudePane_def debugLog_debug split: option.splits)

lemma locate_debug: "list_all (\<lambda>e. ev_Type e = EventDebug) (snd (locate env now m ts))"
proof -
  let ?f = "findClaudePane env now m (ts_Name ts)"
  have f: "list_all (\<lambda>e. ev_Type e = EventDebug) (snd ?f)"
    by (rule findClaudePane_debug)
  show ?thesis
    unfolding locate_def Let_def
    using f debugLog_debug [of m "''%s: capture error: %v''" now]
    by (auto split: option.splits prod.splits if_splits)
qed

lemma update_existing_events:
  "snd (update_existing d env now ts claudePane content existing) =
     (if State existing = DetectState d content (LastContent existing) (LastCapture existing)
      then []
      else
        [\<lparr>ev_Type = EventStateChanged, ev_Session = ts_Name ts,
          ev_State = DetectState d content (LastContent existing) (LastCapture existing),
          ev_Time = now, ev_Message = ''''\<rparr>]
        @ (if State existing = StateThinking
              \<and> (DetectState d content (LastContent existing) (LastCapture existing) = StateIdle
                 \<or> DetectState d content (LastContent existing) (LastCapture existing)
                     = StateActive)
           then [\<lparr>ev_Type = EventTaskCompleted, ev_Session = ts_Name ts,
                  ev_State = DetectState d content (LastContent existing) (LastCapture existing),
                  ev_Time = now, ev_Message = ''''\<rparr>]
           else [])
        @ (if DetectState d content (LastContent existing) (LastCapture existing) = StateUrgent
           then [\<lparr>ev_Type = EventUrgent, ev_Session = ts_Name ts,
                  ev_State = DetectState d content (LastContent existing) (LastCapture existing),
                  ev_Time = now, ev_Message = info_LastLine (detector_ParseInfo env content)\<rparr>]
           else []))"
  by (simp add: update_existing_def Let_def)

lemma update_existing_State:
  "State (fst (update_existing d env now ts claudePane content existing)) =
     DetectState d content (LastContent existing) (LastCapture existing)"
  by (simp add: update_existing_def Let_def)

lemma poll_session_tracked:
  assumes "map_of (sessions m) (ts_Name ts) = Some existing"
  shows "\<exists>dbg. list_all (\<lambda>e. ev_Type e = EventDebug) dbg
           \<and> (poll_session env now ts m = (m, dbg)
              \<or> (\<exists>claudePane content.
                    poll_session env now ts m =
                      (m\<lparr>sessions := AList.update (ts_Name ts)
                           (fst (update_existing (detector m) env now ts claudePane content
                                   existing))
                           (sessions m)\<rparr>,
                       dbg @ snd (update_existing (detector m) env now ts claudePane content
                                    existing))))"
proof (cases "fst (locate env now m ts)")
  case Skip
  then have "poll_session env now ts m = (m, snd (locate env now m ts))"
    by (cases "locate env now m ts") (simp add: poll_session_def)
  then show ?thesis using locate_debug [of env now m ts] by blast
next
  case (Located claudePane content)
  let ?dbg = "snd (locate env now m ts) @ debugLog m ''%s: Claude=true pane=%v'' now"
  have d: "list_all (\<lambda>e. ev_Type e = EventDebug) ?dbg"
    using locate_debug [of env now m ts] debugLog_debug [of m "''%s: Claude=true pane=%v''" now]
    by simp
  have "poll_session env now ts m =
      (m\<lparr>sessions := AList.update (ts_Name ts)
           (fst (update_existing (detector m) env now ts claudePane content existing))
           (sessions m)\<rparr>,
       ?dbg @ snd (update_existing (detector m) env now ts claudePane content existing))"
    using Located assms
    by (cases "locate env now m ts") (simp add: poll_session_def Let_def split: prod.splits)
  then show ?thesis using d by blast
qed
text \<open>
  Claim C2. Take a poll step over a session that is already tracked, with the content
  captured for it. If the state classified from the content equals the recorded state,
  the step sends no event for the session. If it differs, the step sends exactly one
  state-changed event, first; and when the recorded state is thinking and the new state
  is idle or active, the task-completed event comes directly after it and nothing else
  follows. Within \<^verbatim>\<open>poll\<close>, the turn of the loop for a tracked session sends
  debug events (none unless the debug flag is set), and then either nothing, when the
  session is skipped, or exactly these events.
\<close>

theorem poll_tracked_session_events:
  "(DetectState d content (LastContent existing) (LastCapture existing) = State existing \<longrightarrow>
      snd (update_existing d env now ts claudePane content existing) = [])
   \<and> (DetectState d content (LastContent existing) (LastCapture existing) \<noteq> State existing \<longrightarrow>
      (\<exists>rest. snd (update_existing d env now ts claudePane content existing) =
          state_changed_event (ts_Name ts)
            (DetectState d content (LastContent existing) (LastCapture existing)) now # rest
        \<and> list_all (\<lambda>e. ev_Type e \<noteq> EventStateChanged) rest))
   \<and> (State existing = StateThinking
        \<and> (DetectState d content (LastContent existing) (LastCapture existing) = StateIdle
           \<or> DetectState d content (LastContent existing) (LastCapture existing) = StateActive)
      \<longrightarrow>
      snd (update_existing d env now ts claudePane content existing) =
        [state_changed_event (ts_Name ts)
           (DetectState d content (LastContent existing) (LastCapture existing)) now,
         task_completed_event (ts_Name ts)
           (DetectState d content (LastContent existing) (LastCapture existing)) now])
   \<and> (\<not> (State existing = StateThinking
           \<and> (DetectState d content (LastContent existing) (LastCapture existing) = StateIdle
              \<or> DetectState d content (LastContent existing) (LastCapture existing)
                  = StateActive))
      \<longrightarrow>
      list_all (\<lambda>e. ev_Type e \<noteq> EventTaskCompleted)
        (snd (update_existing d env now ts claudePane content existing)))
   \<and> State (fst (update_existing d env now ts claudePane content existing)) =
       DetectState d content (LastContent existing) (LastCapture existing)
   \<and> (map_of (sessions m) (ts_Name ts) = Some existing \<longrightarrow>
      (\<exists>dbg. list_all (\<lambda>e. ev_Type e = EventDebug) dbg
         \<and> (poll_session env now ts m = (m, dbg)
            \<or> (\<exists>pane captured.
                  poll_session env now ts m =
                    (m\<lparr>sessions := AList.update (ts_Name ts)
                         (fst (update_existing (detector m) env now ts pane captured existing))
                         (sessions m)\<rparr>,
                     dbg @ snd (update_existing (detector m) env now ts pane captured
                                  existing))))))"
proof -
  let ?new = "DetectState d content (LastContent existing) (LastCapture existing)"
  let ?evs = "snd (update_existing d env now ts claudePane content existing)"
  note ev = update_existing_events [of d env now ts claudePane content existing]
  have a: "?new = State existing \<longrightarrow> ?evs = []"
    using ev by simp
  have b: "?new \<noteq> State existing \<longrightarrow>
      (\<exists>rest. ?evs = state_changed_event (ts_Name ts) ?new now # rest
        \<and> list_all (\<lambda>e. ev_Type e \<noteq> EventStateChanged) rest)"
    using ev by (auto simp add: state_changed_event_def)
  have c: "State existing = StateThinking \<and> (?new = StateIdle \<or> ?new = StateActive) \<longrightarrow>
      ?evs = [state_changed_event (ts_Name ts) ?new now,
              task_completed_event (ts_Name ts) ?new now]"
    using ev by (auto simp add: state_changed_event_def task_completed_event_def)
  have d: "\<not> (State existing = StateThinking \<and> (?new = StateIdle \<or> ?new = StateActive)) \<longrightarrow>
      list_all (\<lambda>e. ev_Type e \<noteq> EventTaskCompleted) ?evs"
    using ev by auto
  have e: "State (fst (update_existing d env now ts claudePane content existing)) = ?new"
    by (rule update_existing_State)
  have f: "map_of (sessions m) (ts_Name ts) = Some existing \<longrightarrow>
      (\<exists>dbg. list_all (\<lambda>e. ev_Type e = EventDebug) dbg
         \<and> (poll_session env now ts m = (m, dbg)
            \<or> (\<exists>pane captured.
                  poll_session env now ts m =
                    (m\<lparr>sessions := AList.update (ts_Name ts)
                         (fst (update_existing (detector m) env now ts pane captured existing))
                         (sessions m)\<rparr>,
                     dbg @ snd (update_existing (detector m) env now ts pane captured
                                  existing)))))"
    using poll_session_tracked [of m ts existing env now] by blast
  show ?thesis
    using a b c d e f by blast
qed

theorem poll_tracked_session_events_witness:
  "(DetectState NewDetector thinking_capture (LastContent tracked_thinking)
        (LastCapture tracked_thinking) = State tracked_thinking
      \<and> snd (update_existing NewDetector (world thinking_capture ''abc'') 2 main_session
               (Some pane0) thinking_capture tracked_thinking) = [])
   \<and> (State tracked_thinking = StateThinking
      \<and> DetectState NewDetector idle_capture (LastContent tracked_thinking)
            (LastCapture tracked_thinking) = StateIdle
      \<and> snd (update_existing NewDetector (world idle_capture ''abc'') 2 main_session
               (Some pane0) idle_capture tracked_thinking) =
          [state_changed_event ''main'' StateIdle 2, task_completed_event ''main'' StateIdle 2])
   \<and> (map_of (sessions monitor_tracking) (ts_Name main_session) = Some tracked_thinking
      \<and> snd (poll_session (world idle_capture ''abc'') 2 main_session monitor_tracking) =
          [state_changed_event ''main'' StateIdle 2, task_completed_event ''main'' StateIdle 2])"
proof -
  have st: "State tracked_thinking = StateThinking"
    by (simp add: tracked_thinking_def)
  have n: "ts_Name main_session = ''main''"
    by (simp add: main_session_def)
  have same: "DetectState NewDetector thinking_capture (LastContent tracked_thinking)
        (LastCapture tracked_thinking) = State tracked_thinking"
    by code_simp
  have idle: "DetectState NewDetector idle_capture (LastContent tracked_thinking)
        (LastCapture tracked_thinking) = StateIdle"
    by code_simp
  have tr: "map_of (sessions monitor_tracking) (ts_Name main_session) = Some tracked_thinking"
    by (simp add: monitor_tracking_def main_session_def)
  have c1: "snd (update_existing NewDetector (world thinking_capture ''abc'') 2 main_session
               (Some pane0) thinking_capture tracked_thinking) = []"
    using poll_tracked_session_events [of NewDetector thinking_capture tracked_thinking
        "world thinking_capture ''abc''" 2 main_session "Some pane0" monitor_tracking] same
    by blast
  have c2: "snd (update_existing NewDetector (world idle_capture ''abc'') 2 main_session
               (Some pane0) idle_capture tracked_thinking) =
          [state_changed_event ''main'' StateIdle 2, task_completed_event ''main'' StateIdle 2]"
    using poll_tracked_session_events [of NewDetector idle_capture tracked_thinking
        "world idle_capture ''abc''" 2 main_session "Some pane0" monitor_tracking] st idle n
    by simp
  have c3: "snd (poll_session (world idle_capture ''abc'') 2 main_session monitor_tracking) =
          [state_changed_event ''main'' StateIdle 2, task_completed_event ''main'' StateIdle 2]"
    by code_simp
  show ?thesis
    using st same idle tr c1 c2 c3 by blast
qed

section \<open>The locked transcript identifier\<close>

lemma map_of_filter_key:
  "map_of (filter (\<lambda>(k, v). P k) xs) k = (if P k then map_of xs k else None)"
  by (induction xs) auto

lemma update_existing_id:
  "ClaudeSessionID (fst (update_existing d env now ts claudePane content existing)) =
     ClaudeSessionID existing"
  by (simp add: update_existing_def Let_def)

lemma discover_sessions:
  "sessions (fst (discover env now ts claudePane content m)) =
     AList.update (ts_Name ts)
       (the (map_of (sessions (fst (discover env now ts claudePane content m))) (ts_Name ts)))
       (sessions m)
   \<and> id_of (fst (discover env now ts claudePane content m)) (ts_Name ts) =
       Some (locked_id env m (ts_Name ts))
   \<and> has_store (fst (discover env now ts claudePane content m)) = has_store m"
  by (simp add: discover_def Let_def id_of_def update_conv')

lemma discover_other:
  "name \<noteq> ts_Name ts \<Longrightarrow>
   id_of (fst (discover env now ts claudePane content m)) name = id_of m name"
  by (simp add: discover_def Let_def id_of_def update_conv')

text \<open>One turn of the loop: what is tracked stays tracked, with its identifier.\<close>

lemma poll_session_keeps_id:
  assumes "id_of m name = Some i"
  shows "id_of (fst (poll_session env now ts m)) name = Some i"
proof (cases "locate env now m ts")
  case (Pair loc ev)
  show ?thesis
  proof (cases loc)
    case Skip
    then show ?thesis using Pair assms by (simp add: poll_session_def)
  next
    case (Located claudePane content)
    show ?thesis
    proof (cases "map_of (sessions m) (ts_Name ts)")
      case None
      then have "name \<noteq> ts_Name ts" using assms by (auto simp add: id_of_def)
      then have "id_of (fst (discover env now ts claudePane content m)) name = Some i"
        using assms by (simp add: discover_other)
      then show ?thesis using Pair Located None
        by (simp add: poll_session_def Let_def case_prod_unfold)
    next
      case (Some existing)
      have eq: "sessions (fst (poll_session env now ts m)) =
          AList.update (ts_Name ts)
            (fst (update_existing (detector m) env now ts claudePane content existing))
            (sessions m)"
        using Pair Located Some by (simp add: poll_session_def Let_def case_prod_unfold)
      show ?thesis
      proof (cases "name = ts_Name ts")
        case True
        then show ?thesis using assms Some eq
          by (simp add: id_of_def update_conv' update_existing_id)
      next
        case False
        then show ?thesis using assms eq by (simp add: id_of_def update_conv')
      qed
    qed
  qed
qed

text \<open>
  One turn of the loop: an identifier found afterwards was there before, or the session
  was not tracked and the identifier is the one locked at its discovery.
\<close>

lemma poll_session_id_origin:
  assumes "id_of (fst (poll_session env now ts m)) name = Some j"
  shows "id_of m name = Some j \<or> (id_of m name = None \<and> j = locked_id env m name)"
proof (cases "locate env now m ts")
  case (Pair loc ev)
  show ?thesis
  proof (cases loc)
    case Skip
    then show ?thesis using Pair assms by (simp add: poll_session_def)
  next
    case (Located claudePane content)
    show ?thesis
    proof (cases "map_of (sessions m) (ts_Name ts)")
      case None
      have eq: "fst (poll_session env now ts m) = fst (discover env now ts claudePane content m)"
        using Pair Located None by (simp add: poll_session_def Let_def case_prod_unfold)
      have none: "id_of m (ts_Name ts) = None" using None by (simp add: id_of_def)
      show ?thesis
      proof (cases "name = ts_Name ts")
        case True
        have "id_of (fst (discover env now ts claudePane content m)) (ts_Name ts) =
            Some (locked_id env m (ts_Name ts))"
          using discover_sessions [of env now ts claudePane content m] by blast
        then have "j = locked_id env m name" using assms eq True by simp
        then show ?thesis using none True by simp
      next
        case False
        then show ?thesis using assms eq by (simp add: discover_other)
      qed
    next
      case (Some existing)
      have eq: "sessions (fst (poll_session env now ts m)) =
          AList.update (ts_Name ts)
            (fst (update_existing (detector m) env now ts claudePane content existing))
            (sessions m)"
        using Pair Located Some by (simp add: poll_session_def Let_def case_prod_unfold)
      show ?thesis
      proof (cases "name = ts_Name ts")
        case True
        then show ?thesis using assms Some eq
          by (simp add: id_of_def update_conv' update_existing_id)
      next
        case False
        then show ?thesis using assms eq by (simp add: id_of_def update_conv')
      qed
    qed
  qed
qed

lemma poll_session_has_store: "has_store (fst (poll_session env now ts m)) = has_store m"
proof (cases "locate env now m ts")
  case (Pair loc ev)
  show ?thesis
  proof (cases loc)
    case Skip
    then show ?thesis using Pair by (simp add: poll_session_def)
  next
    case (Located claudePane content)
    then show ?thesis using Pair discover_sessions [of env now ts claudePane content m]
      by (cases "map_of (sessions m) (ts_Name ts)")
         (simp_all add: poll_session_def Let_def case_prod_unfold)
  qed
qed

lemma locked_id_has_store: "has_store m' = has_store m \<Longrightarrow> locked_id env m' name = locked_id env m name"
  by (simp add: locked_id_def)

lemma poll_sessions_keeps_id:
  "id_of m name = Some i \<Longrightarrow> id_of (fst (poll_sessions env now tss m)) name = Some i"
proof (induction tss arbitrary: m)
  case Nil
  then show ?case by simp
next
  case (Cons ts rest)
  have "id_of (fst (poll_session env now ts m)) name = Some i"
    using Cons.prems by (rule poll_session_keeps_id)
  then have "id_of (fst (poll_sessions env now rest (fst (poll_session env now ts m)))) name = Some i"
    by (rule Cons.IH)
  then show ?case by (simp add: Let_def case_prod_unfold)
qed

lemma poll_sessions_has_store: "has_store (fst (poll_sessions env now tss m)) = has_store m"
proof (induction tss arbitrary: m)
  case Nil
  then show ?case by simp
next
  case (Cons ts rest)
  have "has_store (fst (poll_sessions env now rest (fst (poll_session env now ts m)))) =
      has_store (fst (poll_session env now ts m))"
    by (rule Cons.IH)
  then show ?case by (simp add: Let_def poll_session_has_store case_prod_unfold)
qed

lemma poll_sessions_id_origin:
  "id_of (fst (poll_sessions env now tss m)) name = Some j \<Longrightarrow>
   id_of m name = Some j \<or> (id_of m name = None \<and> j = locked_id env m name)"
proof (induction tss arbitrary: m)
  case Nil
  then show ?case by simp
next
  case (Cons ts rest)
  let ?m1 = "fst (poll_session env now ts m)"
  have "id_of (fst (poll_sessions env now rest ?m1)) name = Some j"
    using Cons.prems by (simp add: Let_def case_prod_unfold)
  then have "id_of ?m1 name = Some j \<or> (id_of ?m1 name = None \<and> j = locked_id env ?m1 name)"
    by (rule Cons.IH)
  then show ?case
  proof
    assume "id_of ?m1 name = Some j"
    then show ?thesis by (rule poll_session_id_origin)
  next
    assume a: "id_of ?m1 name = None \<and> j = locked_id env ?m1 name"
    have "id_of m name = None"
    proof (cases "id_of m name")
      case None
      then show ?thesis .
    next
      case (Some i)
      then have "id_of ?m1 name = Some i" by (rule poll_session_keeps_id)
      then show ?thesis using a by simp
    qed
    moreover have "locked_id env ?m1 name = locked_id env m name"
      by (rule locked_id_has_store) (rule poll_session_has_store)
    ultimately show ?thesis using a by simp
  qed
qed

lemma close_unseen_id:
  "id_of (fst (close_unseen seen now m)) name = Some j \<Longrightarrow> id_of m name = Some j"
  by (simp add: close_unseen_def Let_def id_of_def map_of_filter_key split: if_splits)

lemma poll_id_origin:
  assumes "id_of (fst (poll env now m)) name = Some j"
  shows "id_of m name = Some j \<or> (id_of m name = None \<and> j = locked_id env m name)"
proof (cases "tmux_IsRunning env")
  case False
  then show ?thesis using assms by (simp add: poll_def)
next
  case True
  show ?thesis
  proof (cases "tmux_ListSessions env")
    case None
    then show ?thesis using assms True by (simp add: poll_def)
  next
    case (Some tss)
    let ?m1 = "fst (poll_sessions env now tss m)"
    have "fst (poll env now m) = fst (close_unseen (map ts_Name tss) now ?m1)"
      using True Some by (simp add: poll_def Let_def case_prod_unfold)
    then have "id_of (fst (close_unseen (map ts_Name tss) now ?m1)) name = Some j"
      using assms by simp
    then have "id_of ?m1 name = Some j"
      by (rule close_unseen_id)
    then show ?thesis by (rule poll_sessions_id_origin)
  qed
qed

lemma store_usage_id: "id_of (store_usage n u m) name = id_of m name"
  by (simp add: store_usage_def id_of_def update_conv' split: option.splits)

lemma store_usages_id: "id_of (fst (store_usages env targets m)) name = id_of m name"
proof (induction targets arbitrary: m)
  case Nil
  then show ?case by simp
next
  case (Cons t rest)
  obtain n wd sid where t: "t = (n, wd, sid)" by (cases t) auto
  have "id_of (fst (store_usages env rest (store_usage n (GetSessionByID env wd sid) m))) name =
      id_of (store_usage n (GetSessionByID env wd sid) m) name"
    by (rule Cons.IH)
  then show ?case using t by (simp add: Let_def case_prod_unfold store_usage_id)
qed

lemma updateUsage_id: "id_of (fst (updateUsage env m)) name = id_of m name"
  by (simp add: updateUsage_def store_usages_id)

lemma pollLoop_tick_id_origin:
  assumes "id_of (fst (pollLoop_tick env env' now m)) name = Some j"
  shows "id_of m name = Some j \<or> (id_of m name = None \<and> j = locked_id env m name)"
proof -
  let ?m1 = "fst (poll env now m)"
  have tick: "\<And>m' k. id_of (m'\<lparr>usagePollTick := k\<rparr>) name = id_of m' name"
    by (simp add: id_of_def)
  have "id_of (fst (pollLoop_tick env env' now m)) name = id_of ?m1 name"
    by (simp add: pollLoop_tick_def Let_def case_prod_unfold updateUsage_id tick)
  then have "id_of ?m1 name = Some j" using assms by simp
  then show ?thesis by (rule poll_id_origin)
qed

text \<open>No operation of the monitor changes the identifier of a session it keeps tracking.\<close>

lemma monitor_step_keeps_id:
  assumes "id_of m name = Some i" and "id_of (monitor_step op m) name = Some j"
  shows "j = i"
proof (cases op)
  case (OpPollOnce env now)
  then show ?thesis using assms poll_id_origin [of env now m name j] by auto
next
  case (OpUpdateUsage env)
  then show ?thesis using assms by (simp add: updateUsage_id)
next
  case (OpLoopTick env env' now)
  then show ?thesis using assms pollLoop_tick_id_origin [of env env' now m name j] by auto
qed

lemma tracked_iff_id: "map_of (sessions m) name \<noteq> None \<longleftrightarrow> id_of m name \<noteq> None"
  by (simp add: id_of_def)

lemma monitor_run_keeps_id:
  "tracked_throughout name ops m \<Longrightarrow> id_of (monitor_run ops m) name = id_of m name"
proof (induction ops arbitrary: m)
  case Nil
  then show ?case by simp
next
  case (Cons op ops)
  let ?m1 = "monitor_step op m"
  have t: "tracked_throughout name ops ?m1" using Cons.prems by simp
  have "map_of (sessions ?m1) name \<noteq> None" using t by (cases ops) simp_all
  then obtain j where j: "id_of ?m1 name = Some j" using tracked_iff_id [of ?m1 name] by auto
  have "map_of (sessions m) name \<noteq> None" using Cons.prems by simp
  then obtain i where i: "id_of m name = Some i" using tracked_iff_id [of m name] by auto
  have "j = i" using i j by (rule monitor_step_keeps_id)
  then show ?case using Cons.IH [OF t] i j by simp
qed

lemma store_usages_reads:
  "snd (store_usages env targets m) = map (\<lambda>(name, workingDir, sid). (workingDir, sid)) targets"
proof (induction targets arbitrary: m)
  case Nil
  then show ?case by simp
next
  case (Cons t rest)
  obtain n wd sid where t: "t = (n, wd, sid)" by (cases t) auto
  have "snd (store_usages env rest (store_usage n (GetSessionByID env wd sid) m)) =
      map (\<lambda>(name, workingDir, sid). (workingDir, sid)) rest"
    by (rule Cons.IH)
  then show ?case using t by (simp add: Let_def case_prod_unfold)
qed

lemma updateUsage_reads:
  "snd (updateUsage env m) =
     map (\<lambda>(name, s). (WorkingDir s, ClaudeSessionID s))
       (filter (\<lambda>(name, s). WorkingDir s \<noteq> '''') (sessions m))"
  by (simp add: updateUsage_def store_usages_reads usage_targets_def split_def comp_def)

lemma GetSessionByID_newest:
  "GetSessionByID (env\<lparr>usage_FindActiveSessionID := f\<rparr>) wd sid = GetSessionByID env wd sid"
  by (simp add: GetSessionByID_def)

lemma store_usages_newest:
  "store_usages (env\<lparr>usage_FindActiveSessionID := f\<rparr>) targets m = store_usages env targets m"
proof (induction targets arbitrary: m)
  case Nil
  then show ?case by simp
next
  case (Cons t rest)
  obtain n wd sid where t: "t = (n, wd, sid)" by (cases t) auto
  show ?case using t Cons.IH by (simp add: GetSessionByID_newest)
qed

lemma updateUsage_newest:
  "updateUsage (env\<lparr>usage_FindActiveSessionID := f\<rparr>) m = updateUsage env m"
  by (simp add: updateUsage_def store_usages_newest)

text \<open>One entry per session name: every operation keeps it so.\<close>

lemma distinct_filter_keys: "distinct (map fst xs) \<Longrightarrow> distinct (map fst (filter P xs))"
  by (induction xs) auto

lemma discover_distinct:
  "distinct (map fst (sessions m)) \<Longrightarrow>
   distinct (map fst (sessions (fst (discover env now ts claudePane content m))))"
  by (simp add: discover_def Let_def distinct_update)

lemma poll_session_distinct:
  assumes "distinct (map fst (sessions m))"
  shows "distinct (map fst (sessions (fst (poll_session env now ts m))))"
proof (cases "locate env now m ts")
  case (Pair loc ev)
  show ?thesis
  proof (cases loc)
    case Skip
    then show ?thesis using Pair assms by (simp add: poll_session_def)
  next
    case (Located claudePane content)
    show ?thesis
    proof (cases "map_of (sessions m) (ts_Name ts)")
      case None
      have "fst (poll_session env now ts m) = fst (discover env now ts claudePane content m)"
        using Pair Located None by (simp add: poll_session_def Let_def case_prod_unfold)
      then show ?thesis using assms by (simp add: discover_distinct)
    next
      case (Some existing)
      have "sessions (fst (poll_session env now ts m)) =
          AList.update (ts_Name ts)
            (fst (update_existing (detector m) env now ts claudePane content existing))
            (sessions m)"
        using Pair Located Some by (simp add: poll_session_def Let_def case_prod_unfold)
      then show ?thesis using assms by (simp add: distinct_update)
    qed
  qed
qed

lemma poll_sessions_distinct:
  "distinct (map fst (sessions m)) \<Longrightarrow>
   distinct (map fst (sessions (fst (poll_sessions env now tss m))))"
proof (induction tss arbitrary: m)
  case Nil
  then show ?case by simp
next
  case (Cons ts rest)
  have "distinct (map fst (sessions (fst (poll_session env now ts m))))"
    using Cons.prems by (rule poll_session_distinct)
  then have "distinct (map fst (sessions
      (fst (poll_sessions env now rest (fst (poll_session env now ts m))))))"
    by (rule Cons.IH)
  then show ?case by (simp add: Let_def case_prod_unfold)
qed

lemma close_unseen_distinct:
  "distinct (map fst (sessions m)) \<Longrightarrow>
   distinct (map fst (sessions (fst (close_unseen seen now m))))"
  by (simp add: close_unseen_def Let_def distinct_filter_keys)

lemma poll_distinct:
  assumes "distinct (map fst (sessions m))"
  shows "distinct (map fst (sessions (fst (poll env now m))))"
proof (cases "tmux_IsRunning env")
  case False
  then show ?thesis using assms by (simp add: poll_def)
next
  case True
  show ?thesis
  proof (cases "tmux_ListSessions env")
    case None
    then show ?thesis using assms True by (simp add: poll_def)
  next
    case (Some tss)
    let ?m1 = "fst (poll_sessions env now tss m)"
    have eq: "fst (poll env now m) = fst (close_unseen (map ts_Name tss) now ?m1)"
      using True Some by (simp add: poll_def Let_def case_prod_unfold)
    have "distinct (map fst (sessions ?m1))"
      using assms by (rule poll_sessions_distinct)
    then have "distinct (map fst (sessions (fst (close_unseen (map ts_Name tss) now ?m1))))"
      by (rule close_unseen_distinct)
    then show ?thesis using eq by simp
  qed
qed

lemma store_usage_distinct:
  "distinct (map fst (sessions m)) \<Longrightarrow> distinct (map fst (sessions (store_usage n u m)))"
  by (simp add: store_usage_def distinct_update split: option.splits)

lemma store_usages_distinct:
  "distinct (map fst (sessions m)) \<Longrightarrow>
   distinct (map fst (sessions (fst (store_usages env targets m))))"
proof (induction targets arbitrary: m)
  case Nil
  then show ?case by simp
next
  case (Cons t rest)
  obtain n wd sid where t: "t = (n, wd, sid)" by (cases t) auto
  have "distinct (map fst (sessions (store_usage n (GetSessionByID env wd sid) m)))"
    using Cons.prems by (rule store_usage_distinct)
  then have "distinct (map fst (sessions
      (fst (store_usages env rest (store_usage n (GetSessionByID env wd sid) m)))))"
    by (rule Cons.IH)
  then show ?case using t by (simp add: Let_def case_prod_unfold)
qed

lemma updateUsage_distinct:
  "distinct (map fst (sessions m)) \<Longrightarrow> distinct (map fst (sessions (fst (updateUsage env m))))"
  by (simp add: updateUsage_def store_usages_distinct)

lemma pollLoop_tick_distinct:
  assumes "distinct (map fst (sessions m))"
  shows "distinct (map fst (sessions (fst (pollLoop_tick env env' now m))))"
proof -
  let ?m1 = "fst (poll env now m)"
  have d: "distinct (map fst (sessions ?m1))" using assms by (rule poll_distinct)
  have "distinct (map fst (sessions (fst (updateUsage env'
      (?m1\<lparr>usagePollTick := usagePollTick ?m1 + 1, usagePollTick := 0\<rparr>)))))"
    using d by (intro updateUsage_distinct) simp
  then show ?thesis using d
    by (simp add: pollLoop_tick_def Let_def case_prod_unfold)
qed

lemma monitor_step_distinct:
  "distinct (map fst (sessions m)) \<Longrightarrow> distinct (map fst (sessions (monitor_step op m)))"
  by (cases op) (simp_all add: poll_distinct updateUsage_distinct pollLoop_tick_distinct)

text \<open>What a usage refresh stores: the usage read for the locked identifier, or nothing.\<close>

lemma store_usage_sessions:
  "map_of (sessions (store_usage n u m)) name =
     (if name = n
      then (case u of
              None \<Rightarrow> map_of (sessions m) n
            | Some x \<Rightarrow> map_option (\<lambda>s. s\<lparr>Usage := Some x\<rparr>) (map_of (sessions m) n))
      else map_of (sessions m) name)"
  by (simp add: store_usage_def update_conv' split: option.splits)

lemma store_usages_effect:
  "distinct (map fst targets) \<Longrightarrow>
   map_of (sessions (fst (store_usages env targets m))) name =
     (case map_of targets name of
        None \<Rightarrow> map_of (sessions m) name
      | Some (wd, sid) \<Rightarrow>
          (case GetSessionByID env wd sid of
             None \<Rightarrow> map_of (sessions m) name
           | Some u \<Rightarrow> map_option (\<lambda>s. s\<lparr>Usage := Some u\<rparr>) (map_of (sessions m) name)))"
proof (induction targets arbitrary: m)
  case Nil
  then show ?case by simp
next
  case (Cons t rest)
  obtain n wd sid where t: "t = (n, wd, sid)" by (cases t) auto
  let ?m1 = "store_usage n (GetSessionByID env wd sid) m"
  have dr: "distinct (map fst rest)" and nr: "n \<notin> fst ` set rest"
    using Cons.prems t by auto
  have step: "fst (store_usages env (t # rest) m) = fst (store_usages env rest ?m1)"
    using t by (simp add: Let_def case_prod_unfold)
  note ih = Cons.IH [OF dr, of ?m1]
  show ?case
  proof (cases "name = n")
    case True
    have "map_of rest n = None" using nr by (simp add: map_of_eq_None_iff)
    then have "map_of (sessions (fst (store_usages env rest ?m1))) n = map_of (sessions ?m1) n"
      using ih True by simp
    then have "map_of (sessions (fst (store_usages env (t # rest) m))) n =
        map_of (sessions ?m1) n"
      unfolding step .
    then show ?thesis using True t
      by (simp add: store_usage_sessions split: option.splits)
  next
    case False
    have o: "map_of (sessions ?m1) name = map_of (sessions m) name"
      using False by (simp add: store_usage_sessions)
    have m: "map_of (t # rest) name = map_of rest name"
      using False t by simp
    show ?thesis unfolding step m ih o ..
  qed
qed

lemma usage_targets_distinct:
  "distinct (map fst (sessions m)) \<Longrightarrow> distinct (map fst (usage_targets m))"
proof -
  assume d: "distinct (map fst (sessions m))"
  have "map fst (usage_targets m) =
      map fst (filter (\<lambda>(name, sess). WorkingDir sess \<noteq> '''') (sessions m))"
    by (simp add: usage_targets_def comp_def case_prod_unfold)
  then show ?thesis using d by (simp add: distinct_filter_keys)
qed

lemma map_of_targets:
  "distinct (map fst xs) \<Longrightarrow>
   map_of (map (\<lambda>(name, sess). (name, WorkingDir sess, ClaudeSessionID sess))
             (filter (\<lambda>(name, sess). WorkingDir sess \<noteq> '''') xs)) name =
     (case map_of xs name of
        None \<Rightarrow> None
      | Some s \<Rightarrow> if WorkingDir s \<noteq> '''' then Some (WorkingDir s, ClaudeSessionID s) else None)"
proof (induction xs)
  case Nil
  then show ?case by simp
next
  case (Cons x xs)
  obtain n s where x: "x = (n, s)" by (cases x) auto
  have d: "distinct (map fst xs)" and nx: "n \<notin> fst ` set xs"
    using Cons.prems x by auto
  have none: "map_of xs n = None" using nx by (simp add: map_of_eq_None_iff)
  show ?case using Cons.IH [OF d] x none by (auto split: option.splits)
qed

lemma updateUsage_effect:
  assumes "distinct (map fst (sessions m))" and "map_of (sessions m) name = Some s"
  shows "map_of (sessions (fst (updateUsage env m))) name =
     Some (if WorkingDir s \<noteq> ''''
           then (case GetSessionByID env (WorkingDir s) (ClaudeSessionID s) of
                   None \<Rightarrow> s
                 | Some u \<Rightarrow> s\<lparr>Usage := Some u\<rparr>)
           else s)"
proof -
  have t: "map_of (usage_targets m) name =
      (if WorkingDir s \<noteq> '''' then Some (WorkingDir s, ClaudeSessionID s) else None)"
    using map_of_targets [OF assms(1), of name] assms(2) by (simp add: usage_targets_def)
  have "map_of (sessions (fst (updateUsage env m))) name =
      (case map_of (usage_targets m) name of
        None \<Rightarrow> map_of (sessions m) name
      | Some (wd, sid) \<Rightarrow>
          (case GetSessionByID env wd sid of
             None \<Rightarrow> map_of (sessions m) name
           | Some u \<Rightarrow> map_option (\<lambda>s. s\<lparr>Usage := Some u\<rparr>) (map_of (sessions m) name)))"
    unfolding updateUsage_def
    by (rule store_usages_effect) (rule usage_targets_distinct [OF assms(1)])
  then show ?thesis using t assms(2) by (simp split: option.splits)
qed

text \<open>
  Claim C3. The locked transcript identifier of a tracked session is set when the session
  is discovered, to the identifier the discovery locks (the stored one, otherwise the
  newest transcript of the working directory at that moment), and no operation of the
  monitor reassigns it: a poll, a usage refresh or a tick of the poll loop leaves the
  identifier of every session it keeps tracking as it was, and so does any run of such
  operations throughout which the session stays tracked. A usage refresh reads, for each
  session with a working directory, the usage of the session's locked identifier, and
  stores what it read in that session, leaving the session as it was when there is
  nothing to read; it never asks which transcript is newest, so its reads and its result
  are the same whatever the newest transcript is. The monitor has one entry per session
  name, and every operation keeps it so.
\<close>

theorem ClaudeSessionID_locked:
  "(id_of m name = Some i \<and> id_of (monitor_step op m) name = Some j \<longrightarrow> j = i)
   \<and> (tracked_throughout name ops m \<longrightarrow> id_of (monitor_run ops m) name = id_of m name)
   \<and> (id_of m name = None \<and> id_of (fst (poll env now m)) name = Some j \<longrightarrow>
        j = locked_id env m name)
   \<and> id_of (fst (updateUsage env m)) name = id_of m name
   \<and> snd (updateUsage env m) =
        map (\<lambda>(name, s). (WorkingDir s, ClaudeSessionID s))
          (filter (\<lambda>(name, s). WorkingDir s \<noteq> '''') (sessions m))
   \<and> updateUsage (env\<lparr>usage_FindActiveSessionID := newest\<rparr>) m = updateUsage env m
   \<and> (distinct (map fst (sessions m)) \<and> map_of (sessions m) name = Some s \<longrightarrow>
        map_of (sessions (fst (updateUsage env m))) name =
          Some (if WorkingDir s \<noteq> ''''
                then (case GetSessionByID env (WorkingDir s) (ClaudeSessionID s) of
                        None \<Rightarrow> s
                      | Some u \<Rightarrow> s\<lparr>Usage := Some u\<rparr>)
                else s))
   \<and> (distinct (map fst (sessions m)) \<longrightarrow>
        distinct (map fst (sessions (monitor_step op m))))"
proof -
  have a: "id_of m name = Some i \<and> id_of (monitor_step op m) name = Some j \<longrightarrow> j = i"
    using monitor_step_keeps_id [of m name i op j] by blast
  have b: "tracked_throughout name ops m \<longrightarrow> id_of (monitor_run ops m) name = id_of m name"
    using monitor_run_keeps_id [of name ops m] by blast
  have c: "id_of m name = None \<and> id_of (fst (poll env now m)) name = Some j \<longrightarrow>
        j = locked_id env m name"
    using poll_id_origin [of env now m name j] by auto
  have d: "id_of (fst (updateUsage env m)) name = id_of m name"
    by (rule updateUsage_id)
  have e: "snd (updateUsage env m) =
        map (\<lambda>(name, s). (WorkingDir s, ClaudeSessionID s))
          (filter (\<lambda>(name, s). WorkingDir s \<noteq> '''') (sessions m))"
    by (rule updateUsage_reads)
  have f: "updateUsage (env\<lparr>usage_FindActiveSessionID := newest\<rparr>) m = updateUsage env m"
    by (rule updateUsage_newest)
  have g: "distinct (map fst (sessions m)) \<and> map_of (sessions m) name = Some s \<longrightarrow>
        map_of (sessions (fst (updateUsage env m))) name =
          Some (if WorkingDir s \<noteq> ''''
                then (case GetSessionByID env (WorkingDir s) (ClaudeSessionID s) of
                        None \<Rightarrow> s
                      | Some u \<Rightarrow> s\<lparr>Usage := Some u\<rparr>)
                else s)"
    using updateUsage_effect [of m name s env] by blast
  have h: "distinct (map fst (sessions m)) \<longrightarrow>
        distinct (map fst (sessions (monitor_step op m)))"
    using monitor_step_distinct [of m op] by blast
  show ?thesis using a b c d e f g h by blast
qed

theorem ClaudeSessionID_locked_witness:
  "(id_of (NewMonitor False False) ''main'' = None
      \<and> id_of (fst (poll (world thinking_capture ''abc'') 1 (NewMonitor False False))) ''main''
          = Some ''abc''
      \<and> locked_id (world thinking_capture ''abc'') (NewMonitor False False) ''main'' = ''abc'')
   \<and> (id_of monitor_tracking ''main'' = Some ''abc''
      \<and> id_of (monitor_step (OpPollOnce (world idle_capture ''newer'') 2) monitor_tracking)
            ''main'' = Some ''abc'')
   \<and> (tracked_throughout ''main''
          [OpPollOnce (world idle_capture ''newer'') 2,
           OpUpdateUsage (world idle_capture ''newer''),
           OpLoopTick (world thinking_capture ''newer'') (world idle_capture ''newest'') 3]
          monitor_tracking
      \<and> id_of (monitor_run
            [OpPollOnce (world idle_capture ''newer'') 2,
             OpUpdateUsage (world idle_capture ''newer''),
             OpLoopTick (world thinking_capture ''newer'') (world idle_capture ''newest'') 3]
            monitor_tracking) ''main'' = Some ''abc'')
   \<and> snd (updateUsage (world idle_capture ''newer'') monitor_tracking) = [(''/work'', ''abc'')]
   \<and> (distinct (map fst (sessions
          (monitor_tracking\<lparr>sessions := [(''main'', tracked_thinking\<lparr>Usage := None\<rparr>)]\<rparr>)))
      \<and> map_of (sessions
            (monitor_tracking\<lparr>sessions := [(''main'', tracked_thinking\<lparr>Usage := None\<rparr>)]\<rparr>))
            ''main'' = Some (tracked_thinking\<lparr>Usage := None\<rparr>)
      \<and> map_of (sessions (fst (updateUsage (world idle_capture ''newer'')
            (monitor_tracking\<lparr>sessions := [(''main'', tracked_thinking\<lparr>Usage := None\<rparr>)]\<rparr>))))
            ''main'' = Some tracked_thinking)
   \<and> (distinct (map fst (sessions monitor_tracking))
      \<and> distinct (map fst (sessions
            (monitor_step (OpPollOnce (world idle_capture ''newer'') 2) monitor_tracking))))"
proof -
  let ?ops = "[OpPollOnce (world idle_capture ''newer'') 2,
           OpUpdateUsage (world idle_capture ''newer''),
           OpLoopTick (world thinking_capture ''newer'') (world idle_capture ''newest'') 3]"
  have n0: "id_of (NewMonitor False False) ''main'' = None"
    by (simp add: id_of_def NewMonitor_def)
  have d1: "id_of (fst (poll (world thinking_capture ''abc'') 1 (NewMonitor False False))) ''main''
          = Some ''abc''"
    by code_simp
  have l1: "locked_id (world thinking_capture ''abc'') (NewMonitor False False) ''main'' = ''abc''"
    using ClaudeSessionID_locked [of "NewMonitor False False" "''main''" "''abc''"
        "OpUpdateUsage (world thinking_capture ''abc'')" "''abc''" "[]"
        "world thinking_capture ''abc''" 1 "\<lambda>wd. ''abc''"] n0 d1
    by simp
  have t0: "id_of monitor_tracking ''main'' = Some ''abc''"
    by (simp add: id_of_def monitor_tracking_def tracked_thinking_def)
  have t1: "id_of (monitor_step (OpPollOnce (world idle_capture ''newer'') 2) monitor_tracking)
            ''main'' \<noteq> None"
    by code_simp
  have s1: "id_of (monitor_step (OpPollOnce (world idle_capture ''newer'') 2) monitor_tracking)
            ''main'' = Some ''abc''"
    using ClaudeSessionID_locked [of monitor_tracking "''main''" "''abc''"
        "OpPollOnce (world idle_capture ''newer'') 2" _ "[]"
        "world idle_capture ''newer''" 2 "\<lambda>wd. ''abc''"] t0 t1
    by auto
  have tr: "tracked_throughout ''main'' ?ops monitor_tracking"
    by code_simp
  have r1: "id_of (monitor_run ?ops monitor_tracking) ''main'' = Some ''abc''"
    using ClaudeSessionID_locked [of monitor_tracking "''main''" "''abc''"
        "OpPollOnce (world idle_capture ''newer'') 2" "''abc''" ?ops
        "world idle_capture ''newer''" 2 "\<lambda>wd. ''abc''"] tr t0
    by simp
  have u1: "snd (updateUsage (world idle_capture ''newer'') monitor_tracking) =
      [(''/work'', ''abc'')]"
    using ClaudeSessionID_locked [of monitor_tracking "''main''" "''abc''"
        "OpPollOnce (world idle_capture ''newer'') 2" "''abc''" "[]"
        "world idle_capture ''newer''" 2 "\<lambda>wd. ''abc''"]
    by (simp add: monitor_tracking_def tracked_thinking_def)
  let ?mu = "monitor_tracking\<lparr>sessions := [(''main'', tracked_thinking\<lparr>Usage := None\<rparr>)]\<rparr>"
  have du: "distinct (map fst (sessions ?mu))"
      "map_of (sessions ?mu) ''main'' = Some (tracked_thinking\<lparr>Usage := None\<rparr>)"
    by simp_all
  have e1: "map_of (sessions (fst (updateUsage (world idle_capture ''newer'') ?mu))) ''main'' =
      Some tracked_thinking"
    using ClaudeSessionID_locked [of ?mu "''main''" "''abc''"
        "OpPollOnce (world idle_capture ''newer'') 2" "''abc''" "[]"
        "world idle_capture ''newer''" 2 "\<lambda>wd. ''abc''" "tracked_thinking\<lparr>Usage := None\<rparr>"] du
    by (simp add: tracked_thinking_def GetSessionByID_def world_def)
  have dt: "distinct (map fst (sessions monitor_tracking))"
    by (simp add: monitor_tracking_def)
  have ds: "distinct (map fst (sessions
            (monitor_step (OpPollOnce (world idle_capture ''newer'') 2) monitor_tracking)))"
    using ClaudeSessionID_locked [of monitor_tracking "''main''" "''abc''"
        "OpPollOnce (world idle_capture ''newer'') 2" "''abc''" "[]"
        "world idle_capture ''newer''" 2 "\<lambda>wd. ''abc''" tracked_thinking] dt
    by blast
  show ?thesis
    using n0 d1 l1 t0 s1 tr r1 u1 du e1 dt ds by blast
qed

end
